theory Spec2Isabelle
  imports Complex_Main
begin

section \<open>Shallow embedding of the planner (planner.cpp, mpc_tracker.h)\<close>

text \<open>
  Conventions of the embedding.
  \<^item> The source is a draft that does not compile as it stands (missing semicolons, commas
    for semicolons in a loop header, \<open>eliminate_bubble\<close> for \<open>eliminateBubble\<close>, members
    assigned although \<open>const\<close>). The embedding follows the statements as written and
    repairs nothing beyond this punctuation.
  \<^item> A C++ \<open>double\<close> that has passed the NaN/infinity tests of the source is modelled as a
    \<open>real\<close>; a raw scan range, which may still be NaN or infinite, is a \<open>scan_range\<close>.
    Rounding of floating-point arithmetic is not modelled.
  \<^item> \<open>size_t\<close> is a \<open>nat\<close>, with the wrap-around modulo \<open>2 ^ 64\<close> written out where an
    expression of the source can go below zero; \<open>int\<close> is an \<open>int\<close>.
  \<^item> Behaviour that C++ leaves undefined (a read or write outside a vector, a conversion
    of a negative or infinite \<open>double\<close> to \<open>size_t\<close>, an overflow of \<open>int\<close> arithmetic,
    leaving a non-void function without \<open>return\<close>) and the exception of \<open>vector::at\<close>
    are values of type \<open>error\<close>.
  \<^item> Members that the source uses but never declares or initialises (\<open>inflation_r_\<close>,
    \<open>path_num_\<close>, \<open>gap_threshold_\<close>, ...) are fields of the configuration record.
  \<^item> Of the log, the \<open>ROS_ERROR\<close> of a failed transform lookup and the \<open>ROS_INFO\<close> at the
    end of the map update are kept; the waits (\<open>sleep\<close>) are not modelled.
\<close>

datatype error =
    OutOfBounds          \<comment> \<open>\<open>v[i]\<close> or \<open>v.at(i)\<close> with \<open>i\<close> outside \<open>v\<close>\<close>
  | BadConversion        \<comment> \<open>\<open>double\<close> to \<open>size_t\<close> of a negative or infinite value\<close>
  | MissingReturn        \<comment> \<open>control reaches the end of a non-void function\<close>
  | SignedOverflow       \<comment> \<open>an \<open>int\<close> sum, difference or increment leaves the range of \<open>int\<close>\<close>

datatype scan_range = Finite real | NaN | PosInf | NegInf

subsection \<open>Gap search: \<open>findbestGapIdx\<close>\<close>

text \<open>
  The inner loop
  \<^verbatim>\<open>while (current_idx < scan_ranges.size() && scan_ranges[current_idx] > gap_threshold_)\<close>
  advances \<open>current_size\<close> and \<open>current_idx\<close> together; it returns both.
\<close>

function gap_run :: "real \<Rightarrow> real list \<Rightarrow> nat \<Rightarrow> nat \<Rightarrow> nat \<times> nat" where
  "gap_run gap_threshold scan_ranges current_size current_idx =
     (if current_idx < length scan_ranges \<and> scan_ranges ! current_idx > gap_threshold
      then gap_run gap_threshold scan_ranges (current_size + 1) (current_idx + 1)
      else (current_size, current_idx))"
  by pat_completeness auto
termination
  by (relation "measure (\<lambda>(t, rs, sz, idx). length rs - idx)") auto

declare gap_run.simps [simp del]

text \<open>
  \<^verbatim>\<open>size_t best = (current_start + current_start + current_size - 1)/2;\<close> in \<open>size_t\<close>
  arithmetic, then \<^verbatim>\<open>static_cast<int>(best)\<close>, which keeps the low 32 bits as a signed value.
\<close>

definition size_t_to_int :: "nat \<Rightarrow> int" where
  "size_t_to_int n =
     (let m = int (n mod 2 ^ 32) in if m < 2 ^ 31 then m else m - 2 ^ 32)"

definition gap_best :: "nat \<Rightarrow> nat \<Rightarrow> int" where
  "gap_best current_start current_size =
     size_t_to_int (((current_start + current_start + current_size + (2 ^ 64 - 1)) mod 2 ^ 64) div 2)"

text \<open>
  The outer loop \<^verbatim>\<open>while (current_idx < scan_ranges.size())\<close>. Nothing in its body moves
  \<open>current_idx\<close> except the inner loop, so the loop need not end: the result is an option,
  \<open>None\<close> standing for a call that never returns.
\<close>

partial_function (option) gap_loop ::
  "real \<Rightarrow> real \<Rightarrow> real list \<Rightarrow> nat \<Rightarrow> int list \<Rightarrow> int list option" where
  "gap_loop gap_threshold gap_size_threshold scan_ranges current_idx best_idx =
     (if current_idx < length scan_ranges then
        (case gap_run gap_threshold scan_ranges 0 current_idx of
           (current_size, current_idx') \<Rightarrow>
             gap_loop gap_threshold gap_size_threshold scan_ranges current_idx'
               (if real current_size > gap_size_threshold
                then best_idx @ [gap_best current_idx current_size]
                else best_idx))
      else Some best_idx)"

definition findbestGapIdx :: "real \<Rightarrow> real \<Rightarrow> real list \<Rightarrow> int list option" where
  "findbestGapIdx gap_threshold gap_size_threshold scan_ranges =
     gap_loop gap_threshold gap_size_threshold scan_ranges 0 []"

subsection \<open>Conversions of \<open>double\<close> to integers\<close>

text \<open>
  \<^verbatim>\<open>static_cast<int>(d)\<close> truncates towards zero and is undefined when the truncated
  value does not fit; \<open>round\<close> of C++ rounds halves away from zero; a \<open>double\<close>
  assigned to a \<open>size_t\<close> is undefined when it is negative or too large.
\<close>

definition trunc :: "real \<Rightarrow> int" where
  "trunc r = (if 0 \<le> r then \<lfloor>r\<rfloor> else \<lceil>r\<rceil>)"

definition double_to_int :: "real \<Rightarrow> error + int" where
  "double_to_int r =
     (let z = trunc r in if - (2 ^ 31) \<le> z \<and> z < 2 ^ 31 then Inr z else Inl BadConversion)"

definition cround :: "real \<Rightarrow> real" where
  "cround r = (if 0 \<le> r then of_int \<lfloor>r + 1 / 2\<rfloor> else of_int \<lceil>r - 1 / 2\<rceil>)"

definition double_to_size_t :: "real \<Rightarrow> error + nat" where
  "double_to_size_t r =
     (if r \<le> - 1 \<or> 2 ^ 64 \<le> r then Inl BadConversion else Inr (nat (trunc r)))"

text \<open>The values of a 32-bit \<open>int\<close>.\<close>

definition int_fits :: "int \<Rightarrow> bool" where
  "int_fits z \<longleftrightarrow> - (2 ^ 31) \<le> z \<and> z < 2 ^ 31"

text \<open>The value of an \<open>unsigned\<close> 32-bit expression stored into an \<open>int\<close>.\<close>

definition wrap_int32 :: "int \<Rightarrow> int" where
  "wrap_int32 z = (z + 2 ^ 31) mod 2 ^ 32 - 2 ^ 31"

subsection \<open>Data: configuration, map, transforms, scans, planner state\<close>

text \<open>
  The members of \<open>Planner\<close> that are \<open>const\<close> in the source or used without a
  declaration. The source writes \<open>inflation_r\<close> once for \<open>inflation_r_\<close>; both are the
  field \<open>inflation_r\<close>.
\<close>

record config =
  lookahead_d :: real
  bubble_radius :: real
  gap_size_threshold :: real
  gap_threshold :: real
  max_scan :: real
  inflation_r :: int
  path_num :: int

text \<open>\<open>nav_msgs::OccupancyGrid::info\<close>: \<open>width\<close> and \<open>height\<close> are \<open>uint32\<close>.\<close>

record map_info =
  width :: nat
  height :: nat
  resolution :: real
  origin_x :: real
  origin_y :: real

text \<open>
  A \<open>geometry_msgs::TransformStamped\<close>, reduced to what the planner reads of it: the
  translation in the plane and the yaw that \<open>getRPY\<close> extracts from the rotation.
\<close>

record transform =
  trans_x :: real
  trans_y :: real
  yaw :: real

record scan_msg =
  ranges :: "scan_range list"
  angle_min :: real
  angle_max :: real
  angle_increment :: real

datatype log_entry = RosError | RosInfo string

record planner_state =
  input_map_info :: map_info
  input_map_data :: "int list"
  new_obstacles :: "nat list"
  clear_obstacles_count :: int
  tf_laser_to_map :: transform
  tf_map_to_laser :: transform
  steering_options :: "real list"
  truncate_done :: bool             \<comment> \<open>the member \<open>truncate_\<close>\<close>
  start_idx :: nat
  end_idx :: nat
  angle_increment_m :: real       \<comment> \<open>the member \<open>angle_increment_\<close>\<close>
  published :: "int list list"     \<comment> \<open>the grids sent on \<open>map_pub_\<close>, oldest first\<close>
  ros_log :: "log_entry list"

subsection \<open>Grid Map: \<open>expandObstacles\<close> and \<open>updateStaticMap\<close>\<close>

text \<open>
  \<open>expandObstacles\<close>: the two nested loops push \<open>j*width + i\<close> for \<open>i\<close> from
  \<open>x_map_idx - inflation_r_\<close> up to, not including, \<open>x_map_idx + inflation_r\<close>, and the same
  for \<open>j\<close>. No index is tested against the grid. (The call of \<open>get_data\<close> in the middle
  of the function re-reads the waypoint file; it does not touch the grid and is left out.)
  The loop bounds are \<open>int\<close> sums and differences: the two of \<open>i\<close> are computed in
  any case, the two of \<open>j\<close> when the loop of \<open>i\<close> runs at all, and one that leaves
  the range of \<open>int\<close> is an overflow. The index itself is computed in \<open>unsigned\<close>
  arithmetic (\<open>width\<close> is a \<open>uint32\<close>) and wraps.
\<close>

definition window_indices :: "nat \<Rightarrow> int \<Rightarrow> int \<Rightarrow> int \<Rightarrow> int list" where
  "window_indices w r x_map_idx y_map_idx =
     concat (map (\<lambda>i. map (\<lambda>j. wrap_int32 (j * int w + i))
                          [y_map_idx - r .. y_map_idx + r - 1])
                 [x_map_idx - r .. x_map_idx + r - 1])"

definition expandObstacles :: "map_info \<Rightarrow> int \<Rightarrow> real \<Rightarrow> real \<Rightarrow> error + int list" where
  "expandObstacles info r x_map y_map =
     (if resolution info = 0 then Inl BadConversion
      else case double_to_int ((x_map - origin_x info) / resolution info) of
             Inl e \<Rightarrow> Inl e
           | Inr x_map_idx \<Rightarrow>
               (case double_to_int ((y_map - origin_y info) / resolution info) of
                  Inl e \<Rightarrow> Inl e
                | Inr y_map_idx \<Rightarrow>
                    (if \<not> (int_fits (x_map_idx - r) \<and> int_fits (x_map_idx + r))
                     then Inl SignedOverflow
                     else if x_map_idx - r < x_map_idx + r
                             \<and> \<not> (int_fits (y_map_idx - r) \<and> int_fits (y_map_idx + r))
                     then Inl SignedOverflow
                     else Inr (window_indices (width info) r x_map_idx y_map_idx))))"

text \<open>
  The marking loop of \<open>updateStaticMap\<close>:
  \<^verbatim>\<open>if (input_map_.data[obstacleIdx[i]] != 100) { ... = 100; new_obstacles_.push_back(...); }\<close>
  The index is used as it comes; outside the vector the access is undefined.
\<close>

fun mark_cells :: "int list \<Rightarrow> nat list \<Rightarrow> int list \<Rightarrow> error + (int list \<times> nat list)" where
  "mark_cells data nobs [] = Inr (data, nobs)"
| "mark_cells data nobs (idx # rest) =
     (if 0 \<le> idx \<and> idx < int (length data) then
        (if data ! nat idx \<noteq> 100
         then mark_cells (data[nat idx := 100]) (nobs @ [nat idx]) rest
         else mark_cells data nobs rest)
      else Inl OutOfBounds)"

text \<open>
  The loop over the scan, from \<open>start\<close> up to \<open>end\<close>, on the list of the ranges in that
  window. \<open>theta\<close> advances only after a hit that is neither NaN nor infinite: the
  \<open>continue\<close> skips the increment.
\<close>

definition hit_point :: "transform \<Rightarrow> real \<Rightarrow> real \<Rightarrow> real \<times> real" where
  "hit_point tf hit theta =
     (let x_base_link = hit * cos theta;
          y_base_link = hit * sin theta
      in (x_base_link * cos (yaw tf) - y_base_link * sin (yaw tf) + trans_x tf,
          x_base_link * sin (yaw tf) + y_base_link * cos (yaw tf) + trans_y tf))"

fun scan_loop ::
  "map_info \<Rightarrow> int \<Rightarrow> transform \<Rightarrow> real \<Rightarrow> scan_range list \<Rightarrow> real \<Rightarrow> int list \<Rightarrow> nat list
     \<Rightarrow> error + (int list \<times> nat list)" where
  "scan_loop info r tf inc [] theta data nobs = Inr (data, nobs)"
| "scan_loop info r tf inc (Finite hit # rest) theta data nobs =
     (case hit_point tf hit theta of
        (x_map, y_map) \<Rightarrow>
          (case expandObstacles info r x_map y_map of
             Inl e \<Rightarrow> Inl e
           | Inr obstacleIdx \<Rightarrow>
               (case mark_cells data nobs obstacleIdx of
                  Inl e \<Rightarrow> Inl e
                | Inr (data', nobs') \<Rightarrow>
                    scan_loop info r tf inc rest (theta + inc) data' nobs')))"
| "scan_loop info r tf inc (_ # rest) theta data nobs =
     scan_loop info r tf inc rest theta data nobs"

text \<open>The decay loop \<^verbatim>\<open>input_map_.data[new_obstacles_[i]] = 0\<close>.\<close>

fun clear_cells :: "int list \<Rightarrow> nat list \<Rightarrow> error + int list" where
  "clear_cells data [] = Inr data"
| "clear_cells data (idx # rest) =
     (if idx < length data then clear_cells (data[idx := 0]) rest else Inl OutOfBounds)"

text \<open>
  The ranges that the loop \<^verbatim>\<open>for (int i=start, i<end, i++)\<close> reads, with
  \<open>start = size/6\<close> and \<open>end = 5*size/6\<close>.
\<close>

definition scan_window :: "scan_range list \<Rightarrow> scan_range list" where
  "scan_window rs = take (5 * length rs div 6 - length rs div 6) (drop (length rs div 6) rs)"

text \<open>
  \<open>updateStaticMap\<close>. The second argument is the answer of \<open>lookupTransform\<close>: \<open>None\<close>
  is the \<open>TransformException\<close>, which the \<open>catch\<close> block logs before the function goes
  on with the transform it already has. The result is the new state, with the published
  grid appended to \<open>published\<close>. The increment \<open>clear_obstacles_count_++\<close> of a counter
  that stands at the largest \<open>int\<close> is an overflow.
\<close>

definition updateStaticMap ::
  "config \<Rightarrow> planner_state \<Rightarrow> transform option \<Rightarrow> scan_msg \<Rightarrow> error + planner_state" where
  "updateStaticMap cfg s lookup scan =
     (let s1 = (case lookup of
                  Some tf \<Rightarrow> s\<lparr>tf_laser_to_map := tf\<rparr>
                | None \<Rightarrow> s\<lparr>ros_log := ros_log s @ [RosError]\<rparr>);
          theta = angle_min scan + real (length (ranges scan) div 6) * angle_increment scan
      in case scan_loop (input_map_info s1) (inflation_r cfg) (tf_laser_to_map s1)
                (angle_increment scan) (scan_window (ranges scan)) theta
                (input_map_data s1) (new_obstacles s1) of
           Inl e \<Rightarrow> Inl e
         | Inr (data, nobs) \<Rightarrow>
             (if \<not> int_fits (clear_obstacles_count s1 + 1) then Inl SignedOverflow
              else if clear_obstacles_count s1 + 1 > 50 then
                (case clear_cells data nobs of
                   Inl e \<Rightarrow> Inl e
                 | Inr data' \<Rightarrow>
                     Inr (s1\<lparr>input_map_data := data', new_obstacles := [],
                            clear_obstacles_count := 0,
                            published := published s1 @ [data'],
                            ros_log := ros_log s1 @ [RosInfo ''Map updated'']\<rparr>))
              else
                Inr (s1\<lparr>input_map_data := data, new_obstacles := nobs,
                       clear_obstacles_count := clear_obstacles_count s1 + 1,
                       published := published s1 @ [data],
                       ros_log := ros_log s1 @ [RosInfo ''Map updated'']\<rparr>)))"

text \<open>A sequence of scan updates, each with its own answer of the transform lookup.\<close>

fun run_updates ::
  "config \<Rightarrow> planner_state \<Rightarrow> (transform option \<times> scan_msg) list \<Rightarrow> error + planner_state" where
  "run_updates cfg s [] = Inr s"
| "run_updates cfg s ((lookup, scan) # rest) =
     (case updateStaticMap cfg s lookup scan of
        Inl e \<Rightarrow> Inl e
      | Inr s' \<Rightarrow> run_updates cfg s' rest)"

text \<open>
  The cells that one update tries to mark: the indices that \<open>expandObstacles\<close> returns
  for the hits of the scan window, in the order of the loop.
\<close>

fun scan_cells ::
  "map_info \<Rightarrow> int \<Rightarrow> transform \<Rightarrow> real \<Rightarrow> scan_range list \<Rightarrow> real \<Rightarrow> int list" where
  "scan_cells info r tf inc [] theta = []"
| "scan_cells info r tf inc (Finite hit # rest) theta =
     (case hit_point tf hit theta of
        (x_map, y_map) \<Rightarrow>
          (case expandObstacles info r x_map y_map of
             Inl e \<Rightarrow> []
           | Inr obstacleIdx \<Rightarrow> obstacleIdx @ scan_cells info r tf inc rest (theta + inc)))"
| "scan_cells info r tf inc (_ # rest) theta = scan_cells info r tf inc rest theta"

definition update_cells :: "config \<Rightarrow> planner_state \<Rightarrow> transform option \<Rightarrow> scan_msg \<Rightarrow> int list" where
  "update_cells cfg s lookup scan =
     scan_cells (input_map_info s) (inflation_r cfg)
       (case lookup of Some tf \<Rightarrow> tf | None \<Rightarrow> tf_laser_to_map s)
       (angle_increment scan) (scan_window (ranges scan))
       (angle_min scan + real (length (ranges scan) div 6) * angle_increment scan)"

subsection \<open>Gap-Follower: \<open>closestPoint\<close>, \<open>eliminateBubble\<close>, \<open>scanCallback\<close>\<close>

text \<open>\<open>std::min_element\<close>: the position of the first smallest element, 0 on an empty vector.\<close>

fun min_scan :: "real list \<Rightarrow> nat \<Rightarrow> real \<Rightarrow> nat \<Rightarrow> nat" where
  "min_scan [] i smallest smallest_idx = smallest_idx"
| "min_scan (r # rs) i smallest smallest_idx =
     (if r < smallest then min_scan rs (i + 1) r i
      else min_scan rs (i + 1) smallest smallest_idx)"

definition closestPoint :: "real list \<Rightarrow> nat" where
  "closestPoint scan_ranges =
     (case scan_ranges of [] \<Rightarrow> 0 | r # rs \<Rightarrow> min_scan rs 1 r 0)"

text \<open>
  The loop of \<open>eliminateBubble\<close>, \<^verbatim>\<open>for (size_t i=start; i<end; i++) scan_ranges->at(i) = 0.0;\<close>
  where \<open>at\<close> throws outside the vector.
\<close>

function bubble_loop :: "real list \<Rightarrow> nat \<Rightarrow> nat \<Rightarrow> error + real list" where
  "bubble_loop scan_ranges i end_i =
     (if i < end_i then
        (if i < length scan_ranges then bubble_loop (scan_ranges[i := 0]) (i + 1) end_i
         else Inl OutOfBounds)
      else Inr scan_ranges)"
  by pat_completeness auto
termination
  by (relation "measure (\<lambda>(rs, i, e). e - i)") auto

declare bubble_loop.simps [simp del]

text \<open>
  \<open>eliminateBubble\<close>. \<open>start\<close> and \<open>end\<close> are \<open>size_t\<close>: the rounded \<open>double\<close> is
  converted, which is undefined for a negative value, and the test \<open>start < 0\<close> of the
  source can never hold. A division by \<open>closest_dist = 0\<close> or \<open>angle_increment_ = 0\<close>
  gives an infinity or a NaN, whose conversion is undefined as well. \<open>end\<close> is cut to
  \<open>size - 1\<close> (a \<open>size_t\<close> subtraction) and the loop stops before \<open>end\<close>.
\<close>

definition eliminateBubble ::
  "real \<Rightarrow> real \<Rightarrow> real list \<Rightarrow> nat \<Rightarrow> real \<Rightarrow> error + real list" where
  "eliminateBubble radius angle_inc scan_ranges closest_idx closest_dist =
     (if closest_dist = 0 \<or> angle_inc = 0 then Inl BadConversion
      else
        let angle = radius / closest_dist in
        case double_to_size_t (cround (real closest_idx - angle / angle_inc)) of
          Inl e \<Rightarrow> Inl e
        | Inr start \<Rightarrow>
            (case double_to_size_t (cround (real closest_idx + angle / angle_inc)) of
               Inl e \<Rightarrow> Inl e
             | Inr end_i \<Rightarrow>
                 bubble_loop scan_ranges start
                   (if end_i \<ge> length scan_ranges
                    then (length scan_ranges + (2 ^ 64 - 1)) mod 2 ^ 64
                    else end_i)))"

text \<open>The filter of \<open>scanCallback\<close> on one range.\<close>

fun filter_range :: "real \<Rightarrow> scan_range \<Rightarrow> real" where
  "filter_range max_range NaN = 0"
| "filter_range max_range PosInf = max_range"
| "filter_range max_range NegInf = max_range"
| "filter_range max_range (Finite r) = (if r > max_range then max_range else r)"

text \<open>
  \<^verbatim>\<open>for (size_t i=start_idx_; i<end_idx_; i++)\<close> reading \<open>scan_msg->ranges[i]\<close>, which is
  outside the vector when \<open>end_idx_\<close> exceeds its size.
\<close>

function filter_loop ::
  "real \<Rightarrow> scan_range list \<Rightarrow> nat \<Rightarrow> nat \<Rightarrow> real list \<Rightarrow> error + real list" where
  "filter_loop max_range rs i end_i filtered_ranges =
     (if i < end_i then
        (if i < length rs
         then filter_loop max_range rs (i + 1) end_i (filtered_ranges @ [filter_range max_range (rs ! i)])
         else Inl OutOfBounds)
      else Inr filtered_ranges)"
  by pat_completeness auto
termination
  by (relation "measure (\<lambda>(m, rs, i, e, acc). e - i)") auto

declare filter_loop.simps [simp del]

text \<open>
  The block under \<^verbatim>\<open>if (!truncate_)\<close>: the window is fixed by the first scan.
  \<open>truncate_size\<close> is a \<open>double\<close> converted to \<open>size_t\<close>; \<open>start_idx_\<close> is a \<open>size_t\<close>
  difference and wraps.
\<close>

definition set_truncation :: "planner_state \<Rightarrow> scan_msg \<Rightarrow> error + planner_state" where
  "set_truncation s scan =
     (if truncate_done s then Inr s
      else if angle_max scan - angle_min scan = 0 then Inl BadConversion
      else
        case double_to_size_t
               ((180 / (angle_max scan - angle_min scan)) * real (length (ranges scan))) of
          Inl e \<Rightarrow> Inl e
        | Inr truncate_size \<Rightarrow>
            Inr (s\<lparr>start_idx :=
                     (length (ranges scan) div 2 + 2 ^ 64 - truncate_size div 2) mod 2 ^ 64,
                   end_idx := (length (ranges scan) div 2 + truncate_size div 2) mod 2 ^ 64,
                   truncate_done := True,
                   angle_increment_m := angle_increment scan\<rparr>))"

text \<open>
  \<^verbatim>\<open>angle_increment_*(best_idx[i]-(filtered_ranges.size()/2))\<close>: the difference of an
  \<open>int\<close> and a \<open>size_t\<close> is a \<open>size_t\<close> and wraps below zero.
\<close>

definition steering_option :: "real \<Rightarrow> nat \<Rightarrow> int \<Rightarrow> real" where
  "steering_option angle_inc n best =
     angle_inc * real_of_int ((best - int (n div 2)) mod 2 ^ 64)"

text \<open>
  What one scan contributes: the filtered ranges, the closest point, the bubble, the gap
  search and the headings of the accepted gaps. \<open>None\<close> is a gap search that never
  returns.
\<close>

definition scan_headings ::
  "config \<Rightarrow> nat \<Rightarrow> nat \<Rightarrow> real \<Rightarrow> scan_msg \<Rightarrow> (error + real list) option" where
  "scan_headings cfg start end_i angle_inc scan =
     (case filter_loop (max_scan cfg) (ranges scan) start end_i [] of
        Inl e \<Rightarrow> Some (Inl e)
      | Inr filtered_ranges \<Rightarrow>
          (let closest_idx = closestPoint filtered_ranges in
           if closest_idx < length filtered_ranges then
             (case eliminateBubble (bubble_radius cfg) angle_inc filtered_ranges closest_idx
                     (filtered_ranges ! closest_idx) of
                Inl e \<Rightarrow> Some (Inl e)
              | Inr cleared \<Rightarrow>
                  (case findbestGapIdx (gap_threshold cfg) (gap_size_threshold cfg) cleared of
                     None \<Rightarrow> None
                   | Some best_idx \<Rightarrow>
                       Some (Inr (map (steering_option angle_inc (length cleared)) best_idx))))
           else Some (Inl OutOfBounds)))"

text \<open>
  \<open>scanCallback\<close>: the map update, the window, then the headings of this scan pushed
  onto the member \<open>steering_options_\<close>.
\<close>

definition scanCallback ::
  "config \<Rightarrow> planner_state \<Rightarrow> transform option \<Rightarrow> scan_msg \<Rightarrow> (error + planner_state) option" where
  "scanCallback cfg s lookup scan =
     (case updateStaticMap cfg s lookup scan of
        Inl e \<Rightarrow> Some (Inl e)
      | Inr s1 \<Rightarrow>
          (case set_truncation s1 scan of
             Inl e \<Rightarrow> Some (Inl e)
           | Inr s2 \<Rightarrow>
               (case scan_headings cfg (start_idx s2) (end_idx s2) (angle_increment_m s2) scan of
                  None \<Rightarrow> None
                | Some (Inl e) \<Rightarrow> Some (Inl e)
                | Some (Inr headings) \<Rightarrow>
                    Some (Inr (s2\<lparr>steering_options := steering_options s2 @ headings\<rparr>)))))"

subsection \<open>Waypoint Selector: \<open>findWaypoints\<close> and \<open>checkFeasibility\<close>\<close>

record Waypoint =
  wp_x :: real
  wp_y :: real
  wp_heading :: real
  wp_speed :: real

text \<open>\<open>tf2::doTransform\<close> on the position of a pose, in the plane.\<close>

definition doTransform :: "transform \<Rightarrow> real \<times> real \<Rightarrow> real \<times> real" where
  "doTransform tf p =
     (fst p * cos (yaw tf) - snd p * sin (yaw tf) + trans_x tf,
      fst p * sin (yaw tf) + snd p * cos (yaw tf) + trans_y tf)"

text \<open>\<open>std::numeric_limits<double>::max()\<close>.\<close>

definition DBL_MAX :: real where
  "DBL_MAX = (2 ^ 53 - 1) * 2 ^ 971"

text \<open>
  The inner loop of \<open>findWaypoints\<close>, as written:
  \<^verbatim>\<open>for (int j=0; i<global_path_.size(); i++)\<close>.
  Its test and its step are on \<open>i\<close>, the counter of the outer loop; \<open>j\<close> stays what it
  is. The position handed to the transform takes both coordinates from \<open>.x\<close>. The function
  \<open>getMapIdx\<close> is not part of the sources and is a parameter.
\<close>

definition waypoint_body ::
  "real \<Rightarrow> transform \<Rightarrow> (real \<Rightarrow> real \<Rightarrow> int) \<Rightarrow> int list \<Rightarrow> Waypoint list list \<Rightarrow> nat \<Rightarrow> nat
     \<Rightarrow> real \<Rightarrow> int \<Rightarrow> error + (real \<times> int)" where
  "waypoint_body lookahead tf getMapIdx data global_path i j waypoint_d waypoint_idx =
     (if j < length (global_path ! i) then
        (let goal = doTransform tf (wp_x (global_path ! i ! j), wp_x (global_path ! i ! j)) in
         if fst goal < 0 then Inr (waypoint_d, waypoint_idx)
         else
           let d = sqrt ((fst goal)\<^sup>2 + (snd goal)\<^sup>2);
               diff = \<bar>lookahead - d\<bar>
           in if diff < waypoint_d then
                (let waypoint_map_idx =
                       getMapIdx (wp_x (global_path ! i ! j)) (wp_y (global_path ! i ! j))
                 in if 0 \<le> waypoint_map_idx \<and> waypoint_map_idx < int (length data) then
                      (if data ! nat waypoint_map_idx = 100 then Inr (waypoint_d, waypoint_idx)
                       else Inr (diff, int j))
                    else Inl OutOfBounds)
              else Inr (waypoint_d, waypoint_idx))
      else Inl OutOfBounds)"

function waypoint_loop ::
  "real \<Rightarrow> transform \<Rightarrow> (real \<Rightarrow> real \<Rightarrow> int) \<Rightarrow> int list \<Rightarrow> Waypoint list list \<Rightarrow> nat \<Rightarrow> nat
     \<Rightarrow> real \<Rightarrow> int \<Rightarrow> error + (nat \<times> real \<times> int)" where
  "waypoint_loop lookahead tf getMapIdx data global_path i j waypoint_d waypoint_idx =
     (if i < length global_path then
        (case waypoint_body lookahead tf getMapIdx data global_path i j
                waypoint_d waypoint_idx of
           Inl e \<Rightarrow> Inl e
         | Inr (waypoint_d', waypoint_idx') \<Rightarrow>
             waypoint_loop lookahead tf getMapIdx data global_path (i + 1) j
               waypoint_d' waypoint_idx')
      else Inr (i, waypoint_d, waypoint_idx))"
  by pat_completeness auto
termination
  by (relation "measure (\<lambda>(l, tf, g, data, gp, i, j, d, idx). length gp - i)") auto

declare waypoint_loop.simps [simp del]

lemma waypoint_loop_end:
  "waypoint_loop l tf g data gp i j d idx = Inr (i', d', idx') \<Longrightarrow> length gp \<le> i'"
proof (induction l tf g data gp i j d idx rule: waypoint_loop.induct)
  case (1 l tf g data gp i j d idx)
  show ?case
  proof (cases "i < length gp")
    case False
    with "1.prems" show ?thesis
      by (simp add: waypoint_loop.simps [of l tf g data gp i j d idx])
  next
    case True
    from "1.prems" True obtain d2 idx2 where
      body: "waypoint_body l tf g data gp i j d idx = Inr (d2, idx2)" and
      rec: "waypoint_loop l tf g data gp (i + 1) j d2 idx2 = Inr (i', d', idx')"
      by (subst (asm) waypoint_loop.simps) (auto split: sum.splits)
    from "1.IH" [OF True body refl rec] show ?thesis .
  qed
qed

text \<open>
  The outer loop of \<open>findWaypoints\<close>, \<^verbatim>\<open>for (int i=0; i<path_num_; i++)\<close>. After the inner
  loop it pushes \<open>global_path_[i][waypoint_idx]\<close> without a test, with the \<open>i\<close> the inner
  loop left behind and a \<open>waypoint_idx\<close> that is still \<open>-1\<close> when nothing was accepted.
\<close>

function waypoints_loop ::
  "config \<Rightarrow> transform \<Rightarrow> (real \<Rightarrow> real \<Rightarrow> int) \<Rightarrow> int list \<Rightarrow> Waypoint list list \<Rightarrow> nat
     \<Rightarrow> Waypoint list \<Rightarrow> error + Waypoint list" where
  "waypoints_loop cfg tf getMapIdx data global_path i waypoints =
     (if int i < path_num cfg then
        (case waypoint_loop (lookahead_d cfg) tf getMapIdx data global_path i 0 DBL_MAX (- 1) of
           Inl e \<Rightarrow> Inl e
         | Inr (i', waypoint_d, waypoint_idx) \<Rightarrow>
             (if i' < length global_path \<and> 0 \<le> waypoint_idx
                 \<and> waypoint_idx < int (length (global_path ! i'))
              then waypoints_loop cfg tf getMapIdx data global_path (i' + 1)
                     (waypoints @ [global_path ! i' ! nat waypoint_idx])
              else Inl OutOfBounds))
      else Inr waypoints)"
  by pat_completeness auto
termination
  by (relation "measure (\<lambda>(cfg, tf, g, data, gp, i, wps). nat (path_num cfg - int i))")
    (auto dest: waypoint_loop_end)

declare waypoints_loop.simps [simp del]

text \<open>
  \<open>findWaypoints\<close>: the lookup of the transform (kept from before when it fails), then
  the loops. The state it returns carries the transform and the log.
\<close>

definition findWaypoints ::
  "config \<Rightarrow> (real \<Rightarrow> real \<Rightarrow> int) \<Rightarrow> Waypoint list list \<Rightarrow> planner_state \<Rightarrow> transform option
     \<Rightarrow> planner_state \<times> (error + Waypoint list)" where
  "findWaypoints cfg getMapIdx global_path s lookup =
     (let s1 = (case lookup of
                  Some tf \<Rightarrow> s\<lparr>tf_map_to_laser := tf\<rparr>
                | None \<Rightarrow> s\<lparr>ros_log := ros_log s @ [RosError]\<rparr>)
      in (s1, waypoints_loop cfg (tf_map_to_laser s1) getMapIdx (input_map_data s1)
                global_path 0 []))"

text \<open>
  \<open>checkFeasibility\<close>: each option is transformed into a local pose that nothing reads,
  and the function ends without a \<open>return\<close>, although it is declared to return a
  \<open>Waypoint\<close>.
\<close>

definition checkFeasibility ::
  "planner_state \<Rightarrow> transform option \<Rightarrow> Waypoint list \<Rightarrow> planner_state \<times> (error + Waypoint)" where
  "checkFeasibility s lookup waypoint_options =
     (let s1 = (case lookup of
                  Some tf \<Rightarrow> s\<lparr>tf_map_to_laser := tf\<rparr>
                | None \<Rightarrow> s\<lparr>ros_log := ros_log s @ [RosError]\<rparr>);
          goal_waypoints = map (\<lambda>w. doTransform (tf_map_to_laser s1) (wp_x w, wp_y w))
                             waypoint_options
      in (s1, Inl MissingReturn))"

text \<open>
  The selection at the end of \<open>egoOdomCallback\<close>:
  \<^verbatim>\<open>waypoint_options = findWaypoints(); best_waypoint = checkFeasibility(waypoint_options);\<close>
\<close>

definition select_waypoint ::
  "config \<Rightarrow> (real \<Rightarrow> real \<Rightarrow> int) \<Rightarrow> Waypoint list list \<Rightarrow> planner_state
     \<Rightarrow> transform option \<Rightarrow> transform option \<Rightarrow> error + Waypoint" where
  "select_waypoint cfg getMapIdx global_path s lookup1 lookup2 =
     (case findWaypoints cfg getMapIdx global_path s lookup1 of
        (s1, Inl e) \<Rightarrow> Inl e
      | (s1, Inr waypoint_options) \<Rightarrow> snd (checkFeasibility s1 lookup2 waypoint_options))"

subsection \<open>Trajectory Tracker: the motion model and its linearization\<close>

text \<open>
  \<open>propagate_Dynamics\<close> and \<open>get_linear_dynamics\<close> are declared in mpc_tracker.h and
  defined nowhere in the sources; both are modelled from section 4.4 of the spec.
  The state is \<open>(x, y, heading)\<close> (\<open>nx = 3\<close>), the input is (steering-related,
  velocity-related) (\<open>nu = 2\<close>); vectors and matrices are tuples of reals, a matrix being
  the tuple of its rows.
\<close>

type_synonym vec3 = "real \<times> real \<times> real"
type_synonym vec2 = "real \<times> real"
type_synonym mat33 = "vec3 \<times> vec3 \<times> vec3"
type_synonym mat32 = "vec2 \<times> vec2 \<times> vec2"

fun vec3_add :: "vec3 \<Rightarrow> vec3 \<Rightarrow> vec3" where
  "vec3_add (a1, a2, a3) (b1, b2, b3) = (a1 + b1, a2 + b2, a3 + b3)"

fun vec3_sub :: "vec3 \<Rightarrow> vec3 \<Rightarrow> vec3" where
  "vec3_sub (a1, a2, a3) (b1, b2, b3) = (a1 - b1, a2 - b2, a3 - b3)"

fun dot3 :: "vec3 \<Rightarrow> vec3 \<Rightarrow> real" where
  "dot3 (a1, a2, a3) (b1, b2, b3) = a1 * b1 + a2 * b2 + a3 * b3"

fun dot2 :: "vec2 \<Rightarrow> vec2 \<Rightarrow> real" where
  "dot2 (a1, a2) (b1, b2) = a1 * b1 + a2 * b2"

fun mat33_vec :: "mat33 \<Rightarrow> vec3 \<Rightarrow> vec3" where
  "mat33_vec (r1, r2, r3) v = (dot3 r1 v, dot3 r2 v, dot3 r3 v)"

fun mat32_vec :: "mat32 \<Rightarrow> vec2 \<Rightarrow> vec3" where
  "mat32_vec (r1, r2, r3) v = (dot2 r1 v, dot2 r2 v, dot2 r3 v)"

text \<open>
  Modelled from the spec: the body of \<open>propagate_Dynamics\<close> is missing from the sources.
  The spec: the next state after the timestep \<open>dt\<close>, where position advances by velocity
  along heading and heading advances by a function of steering and velocity. That
  function, which the spec does not fix, is the parameter \<open>h\<close>.
\<close>

fun propagate_Dynamics :: "(real \<Rightarrow> real \<Rightarrow> real) \<Rightarrow> vec3 \<Rightarrow> vec2 \<Rightarrow> real \<Rightarrow> vec3" where
  "propagate_Dynamics h (x, y, theta) (steer, v) dt =
     (x + v * cos theta * dt, y + v * sin theta * dt, theta + h steer v * dt)"

text \<open>
  Modelled from the spec: the body of \<open>get_linear_dynamics\<close> is missing from the sources.
  The spec: \<open>Ad\<close> and \<open>Bd\<close> are the Jacobians of the motion model in the state and in
  the input at the operating point, and \<open>hd = f(x_op, u_op) - Ad x_op - Bd u_op\<close> is the
  affine residual (written \<open>hd_vec\<close>, \<open>hd\<close> being the head of a list in HOL). The partial
  derivatives of \<open>h\<close> are the parameters \<open>h_steer\<close> and \<open>h_vel\<close>.
\<close>

fun get_linear_dynamics ::
  "(real \<Rightarrow> real \<Rightarrow> real) \<Rightarrow> (real \<Rightarrow> real \<Rightarrow> real) \<Rightarrow> (real \<Rightarrow> real \<Rightarrow> real) \<Rightarrow> real
     \<Rightarrow> vec3 \<Rightarrow> vec2 \<Rightarrow> mat33 \<times> mat32 \<times> vec3" where
  "get_linear_dynamics h h_steer h_vel dt (x, y, theta) (steer, v) =
     (let Ad = ((1, 0, - v * sin theta * dt),
                (0, 1, v * cos theta * dt),
                (0, 0, 1));
          Bd = ((0, cos theta * dt),
                (0, sin theta * dt),
                (h_steer steer v * dt, h_vel steer v * dt));
          hd_vec = vec3_sub (vec3_sub (propagate_Dynamics h (x, y, theta) (steer, v) dt)
                                  (mat33_vec Ad (x, y, theta)))
                        (mat32_vec Bd (steer, v))
      in (Ad, Bd, hd_vec))"

subsection \<open>Auxiliary notions for the properties\<close>

text \<open>
  What marking the cells \<open>cells\<close> does to the grid and to the pending list: every index
  is inside the grid, the cells at these indices are 100 and the other cells keep their
  value, and the pending list gains the cells that were not 100 before.
\<close>

definition marked_by :: "int list \<Rightarrow> int list \<Rightarrow> nat list \<Rightarrow> int list \<Rightarrow> nat list \<Rightarrow> bool" where
  "marked_by cells data nobs data' nobs' \<longleftrightarrow>
     length data' = length data \<and>
     (\<forall>idx \<in> set cells. 0 \<le> idx \<and> idx < int (length data)) \<and>
     (\<forall>k < length data. data' ! k = (if int k \<in> set cells then 100 else data ! k)) \<and>
     set nobs' = set nobs \<union> {k. k < length data \<and> int k \<in> set cells \<and> data ! k \<noteq> 100}"


subsection \<open>Concrete inputs used in the examples\<close>

text \<open>
  A 4 x 4 grid of resolution 1 with its origin at the map origin, all cells free, a
  laser looking along the x axis, and scans of six ranges, of which the update reads the
  positions 1 to 4; the angles are all 0.
\<close>

definition ex_info :: map_info where
  "ex_info = \<lparr>width = 4, height = 4, resolution = 1, origin_x = 0, origin_y = 0\<rparr>"

definition ex_cfg :: config where
  "ex_cfg = \<lparr>lookahead_d = 1, bubble_radius = 1, gap_size_threshold = 1, gap_threshold = 1,
              max_scan = 10, inflation_r = 1, path_num = 1\<rparr>"

definition tf_at :: "real \<Rightarrow> real \<Rightarrow> transform" where
  "tf_at x y = \<lparr>trans_x = x, trans_y = y, yaw = 0\<rparr>"

definition ex_state :: planner_state where
  "ex_state = \<lparr>input_map_info = ex_info, input_map_data = [0, 0, 0, 0, 0, 0, 0, 0, 0, 0, 0, 0, 0, 0, 0, 0],
                new_obstacles = [], clear_obstacles_count = 0,
                tf_laser_to_map = tf_at 0 2, tf_map_to_laser = tf_at 0 (- 2),
                steering_options = [], truncate_done = False, start_idx = 0, end_idx = 0,
                angle_increment_m = 0, published = [], ros_log = []\<rparr>"

definition ex_scan :: "scan_range \<Rightarrow> scan_msg" where
  "ex_scan r = \<lparr>ranges = [NaN, r, NaN, NaN, NaN, NaN],
                 angle_min = 0, angle_max = 180, angle_increment = 0\<rparr>"


definition ex_grid_marked :: "int list" where
  "ex_grid_marked = [0, 0, 0, 0, 0, 100, 100, 0, 0, 100, 100, 0, 0, 0, 0, 0]"

text \<open>The state after one update of \<open>ex_state\<close> with a hit at range 2, seen from \<open>(0, 2)\<close>.\<close>

definition ex_state_marked :: "log_entry list \<Rightarrow> planner_state" where
  "ex_state_marked lg =
     ex_state\<lparr>input_map_data := ex_grid_marked, new_obstacles := [5, 9, 6, 10],
               clear_obstacles_count := 1, published := [ex_grid_marked], ros_log := lg\<rparr>"


text \<open>
  No update of the sequence, run from the state \<open>s\<close>, has a hit whose inflation window
  contains the cell \<open>k\<close>.
\<close>

fun never_hit ::
  "config \<Rightarrow> planner_state \<Rightarrow> (transform option \<times> scan_msg) list \<Rightarrow> nat \<Rightarrow> bool" where
  "never_hit cfg s [] k = True"
| "never_hit cfg s ((lookup, scan) # rest) k =
     (int k \<notin> set (update_cells cfg s lookup scan) \<and>
      (case updateStaticMap cfg s lookup scan of
         Inl e \<Rightarrow> True
       | Inr s' \<Rightarrow> never_hit cfg s' rest k))"


definition ex_grid_free :: "int list" where
  "ex_grid_free = [0, 0, 0, 0, 0, 0, 0, 0, 0, 0, 0, 0, 0, 0, 0, 0]"

text \<open>
  The marked state with the counter at 50, so that the next update decays; the state
  after that update with the same hit; and the state one more such update later.
\<close>

definition ex_state_due :: planner_state where
  "ex_state_due = (ex_state_marked [])\<lparr>clear_obstacles_count := 50\<rparr>"

definition ex_state_cleared :: planner_state where
  "ex_state_cleared =
     ex_state\<lparr>input_map_data := ex_grid_free, new_obstacles := [],
               clear_obstacles_count := 0, published := [ex_grid_marked, ex_grid_free],
               ros_log := [RosInfo ''Map updated'']\<rparr>"

definition ex_state_remarked :: planner_state where
  "ex_state_remarked =
     ex_state\<lparr>input_map_data := ex_grid_marked, new_obstacles := [5, 9, 6, 10],
               clear_obstacles_count := 1,
               published := [ex_grid_marked, ex_grid_free, ex_grid_marked],
               ros_log := [RosInfo ''Map updated'', RosInfo ''Map updated'']\<rparr>"

text \<open>
  The free state with the counter at \<open>-101\<close>, a value that the member
  \<open>clear_obstacles_count_\<close>, which no constructor initialises, can hold when the first
  scan arrives; and the state after one update of it with a hit at range 2.
\<close>

definition ex_state_unset :: planner_state where
  "ex_state_unset = ex_state\<lparr>clear_obstacles_count := - 101\<rparr>"

definition ex_state_unset_marked :: planner_state where
  "ex_state_unset_marked =
     (ex_state_marked [RosInfo ''Map updated''])\<lparr>clear_obstacles_count := - 100\<rparr>"

text \<open>Fifty updates with scans that have no hit at all.\<close>

definition ex_quiet :: "(transform option \<times> scan_msg) list" where
  "ex_quiet = replicate 50 (Some (tf_at 0 2), ex_scan NaN)"


text \<open>
  An all-open scan of six infinite ranges over a field of view of 180, and the states
  after the first and the second \<open>scanCallback\<close> on it. The one accepted gap has its
  midpoint at index 2, left of the centre 3, and the \<open>size_t\<close> difference wraps.
\<close>

definition ex_scan_open :: scan_msg where
  "ex_scan_open = \<lparr>ranges = [PosInf, PosInf, PosInf, PosInf, PosInf, PosInf],
                    angle_min = 0, angle_max = 180, angle_increment = 1\<rparr>"

definition ex_heading :: real where
  "ex_heading = 18446744073709551615"

definition ex_state_first :: planner_state where
  "ex_state_first =
     ex_state\<lparr>clear_obstacles_count := 1, steering_options := [ex_heading],
               truncate_done := True, start_idx := 0, end_idx := 6, angle_increment_m := 1,
               published := [ex_grid_free], ros_log := [RosInfo ''Map updated'']\<rparr>"

definition ex_state_second :: planner_state where
  "ex_state_second =
     ex_state\<lparr>clear_obstacles_count := 2, steering_options := [ex_heading, ex_heading],
               truncate_done := True, start_idx := 0, end_idx := 6, angle_increment_m := 1,
               published := [ex_grid_free, ex_grid_free],
               ros_log := [RosInfo ''Map updated'', RosInfo ''Map updated'']\<rparr>"


text \<open>
  Reference tracks for the examples: one track with waypoints at the distances 0.5, 1
  and 1.5 straight ahead of a vehicle at the map origin, and one track whose only
  waypoint lies behind it. Every waypoint is in cell 0 of a one-cell free grid.
\<close>

definition waypoint_at :: "real \<Rightarrow> real \<Rightarrow> Waypoint" where
  "waypoint_at x y = \<lparr>wp_x = x, wp_y = y, wp_heading = 0, wp_speed = 1\<rparr>"

definition ex_track_ahead :: "Waypoint list list" where
  "ex_track_ahead = [[waypoint_at (1 / 2) 0, waypoint_at 1 0, waypoint_at (3 / 2) 0]]"

definition ex_track_behind :: "Waypoint list list" where
  "ex_track_behind = [[waypoint_at (- 1) 0]]"

definition ex_getMapIdx :: "real \<Rightarrow> real \<Rightarrow> int" where
  "ex_getMapIdx x y = 0"


section \<open>Properties\<close>

subsection \<open>Gap search\<close>

lemma gap_run_stop:
  "gap_run t rs sz idx = (sz', idx') \<Longrightarrow>
     idx \<le> idx' \<and> (idx' < length rs \<longrightarrow> \<not> rs ! idx' > t) \<and>
     (\<forall>k. idx \<le> k \<and> k < idx' \<longrightarrow> rs ! k > t) \<and> (idx \<le> length rs \<longrightarrow> idx' \<le> length rs)"
proof (induction t rs sz idx rule: gap_run.induct)
  case (1 t rs sz idx)
  show ?case
  proof (cases "idx < length rs \<and> rs ! idx > t")
    case True
    with "1.prems" have r: "gap_run t rs (sz + 1) (idx + 1) = (sz', idx')"
      by (simp add: gap_run.simps [of t rs sz idx])
    from "1.IH" [OF True r] have ih: "idx + 1 \<le> idx'" 
      "idx' < length rs \<longrightarrow> \<not> rs ! idx' > t"
      "\<forall>k. idx + 1 \<le> k \<and> k < idx' \<longrightarrow> rs ! k > t" 
      "idx + 1 \<le> length rs \<longrightarrow> idx' \<le> length rs" by blast+
    have "\<forall>k. idx \<le> k \<and> k < idx' \<longrightarrow> rs ! k > t"
    proof (intro allI impI)
      fix k assume k: "idx \<le> k \<and> k < idx'"
      show "rs ! k > t"
      proof (cases "k = idx")
        case True with \<open>idx < length rs \<and> rs ! idx > t\<close> show ?thesis by simp
      next
        case False with k have "idx + 1 \<le> k \<and> k < idx'" by simp
        with ih(3) show ?thesis by blast
      qed
    qed
    with ih True show ?thesis by simp
  next
    case False
    with "1.prems" show ?thesis
      by (auto simp: gap_run.simps [of t rs sz idx])
  qed
qed

lemma gap_loop_returns_open:
  assumes "gap_loop t g rs idx best = Some out"
  shows "\<forall>k. idx \<le> k \<and> k < length rs \<longrightarrow> rs ! k > t"
proof (rule gap_loop.raw_induct [where P = "\<lambda>t g rs idx best out. \<forall>k. idx \<le> k \<and> k < length rs \<longrightarrow> rs ! k > t", OF _ assms], goal_cases)
  case step: (1 f t g rs idx best out)
  show ?case
  proof (cases "idx < length rs")
    case False
    then show ?thesis by simp
  next
    case True
    obtain sz idx' where run: "gap_run t rs 0 idx = (sz, idx')"
      by (cases "gap_run t rs 0 idx")
    from step(2) True run obtain best' where rec: "f t g rs idx' best' = Some out"
      by (auto split: if_splits)
    from step(1) [OF rec] have tail: "\<forall>k. idx' \<le> k \<and> k < length rs \<longrightarrow> rs ! k > t" .
    from gap_run_stop [OF run] have
      stop: "idx' < length rs \<longrightarrow> \<not> rs ! idx' > t"
      and seg: "\<forall>k. idx \<le> k \<and> k < idx' \<longrightarrow> rs ! k > t"
      by blast+
    show ?thesis
    proof (intro allI impI)
      fix k assume k: "idx \<le> k \<and> k < length rs"
      show "rs ! k > t"
      proof (cases "k < idx'")
        case True
        with seg k show ?thesis by blast
      next
        case False
        with tail k show ?thesis by simp
      qed
    qed
  qed
qed


lemma gap_loop_blocked:
  assumes "idx < length rs" and "\<not> rs ! idx > t"
  shows "gap_loop t g rs idx best = None"
proof (cases "gap_loop t g rs idx best")
  case None
  then show ?thesis .
next
  case (Some out)
  from gap_loop_returns_open [OF Some] assms have False by blast
  then show ?thesis ..
qed

lemma findbestGapIdx_blocked:
  assumes "k < length rs" and "\<not> rs ! k > t"
  shows "findbestGapIdx t g rs = None"
proof (cases "findbestGapIdx t g rs")
  case None
  then show ?thesis .
next
  case (Some out)
  then have "gap_loop t g rs 0 [] = Some out"
    by (simp add: findbestGapIdx_def)
  from gap_loop_returns_open [OF this] assms have False by simp
  then show ?thesis ..
qed

text \<open>The search returns exactly on the arrays all of whose ranges exceed the threshold.\<close>

lemma gap_run_all_open:
  "\<forall>k. idx \<le> k \<and> k < length rs \<longrightarrow> rs ! k > t \<Longrightarrow> idx \<le> length rs \<Longrightarrow>
   gap_run t rs sz idx = (sz + (length rs - idx), length rs)"
proof (induction t rs sz idx rule: gap_run.induct)
  case (1 t rs sz idx)
  show ?case
  proof (cases "idx < length rs")
    case False
    with "1.prems" have "idx = length rs" by simp
    then show ?thesis
      by (simp add: gap_run.simps [of t rs sz "length rs"])
  next
    case True
    with "1.prems" have step: "idx < length rs \<and> t < rs ! idx" by simp
    from "1.prems" True have
      "gap_run t rs (sz + 1) (idx + 1) = (sz + 1 + (length rs - (idx + 1)), length rs)"
      by (intro "1.IH" [OF step]) simp_all
    with step True show ?thesis
      by (simp add: gap_run.simps [of t rs sz idx])
  qed
qed

lemma findbestGapIdx_all_open:
  assumes "\<forall>k < length rs. rs ! k > t"
  shows "findbestGapIdx t g rs =
           Some (if rs \<noteq> [] \<and> real (length rs) > g then [gap_best 0 (length rs)] else [])"
proof (cases "rs = []")
  case True
  then show ?thesis by (simp add: findbestGapIdx_def gap_loop.simps)
next
  case False
  from assms have "gap_run t rs 0 0 = (0 + (length rs - 0), length rs)"
    by (intro gap_run_all_open) simp_all
  with False show ?thesis
    by (simp add: findbestGapIdx_def gap_loop.simps [of t g rs 0] gap_loop.simps [of t g rs "length rs"])
qed

lemma findbestGapIdx_returns_iff:
  "(\<exists>out. findbestGapIdx t g rs = Some out) \<longleftrightarrow> (\<forall>k < length rs. rs ! k > t)"
proof
  assume "\<exists>out. findbestGapIdx t g rs = Some out"
  then obtain out where "gap_loop t g rs 0 [] = Some out"
    by (auto simp: findbestGapIdx_def)
  from gap_loop_returns_open [OF this] show "\<forall>k < length rs. rs ! k > t" by simp
next
  assume "\<forall>k < length rs. rs ! k > t"
  from findbestGapIdx_all_open [OF this] show "\<exists>out. findbestGapIdx t g rs = Some out" by blast
qed

text \<open>
  Claim C2. The gap search is claimed to end after one pass over any finite array, an
  all-blocked scan included. In the source the outer loop advances \<open>current_idx\<close> only
  through the inner loop, which does not move at a range at or below the threshold: on
  the all-blocked scan \<open>[0, 0, 0]\<close> with threshold 1 the search never returns.
\<close>

theorem findbestGapIdx_all_blocked_never_returns:
  "findbestGapIdx 1 2 [0, 0, 0] = None"
  by (rule findbestGapIdx_blocked [where k = 0]) simp_all

subsection \<open>Grid Map\<close>

lemma mark_cells_Inr:
  "mark_cells data nobs idxs = Inr (data', nobs') \<Longrightarrow>
     length data' = length data \<and>
     (\<forall>idx \<in> set idxs. 0 \<le> idx \<and> idx < int (length data)) \<and>
     (\<forall>k < length data. data' ! k = (if int k \<in> set idxs then 100 else data ! k)) \<and>
     set nobs' = set nobs \<union> {k. k < length data \<and> int k \<in> set idxs \<and> data ! k \<noteq> 100}"
proof (induction idxs arbitrary: data nobs)
  case Nil
  then show ?case by auto
next
  case (Cons idx rest)
  from Cons.prems have inb: "0 \<le> idx" "idx < int (length data)"
    by (auto split: if_splits)
  define n where "n = nat idx"
  from inb have n: "n < length data" "idx = int n" by (auto simp: n_def)
  show ?case
  proof (cases "data ! n \<noteq> 100")
    case True
    with Cons.prems n have rec: "mark_cells (data[n := 100]) (nobs @ [n]) rest = Inr (data', nobs')"
      by simp
    from Cons.IH [OF rec] have ih:
      "length data' = length data"
      "\<forall>idx \<in> set rest. 0 \<le> idx \<and> idx < int (length data)"
      "\<forall>k < length data. data' ! k = (if int k \<in> set rest then 100 else data[n := 100] ! k)"
      "set nobs' = set (nobs @ [n]) \<union> {k. k < length data \<and> int k \<in> set rest \<and> data[n := 100] ! k \<noteq> 100}"
      by simp_all
    have c3: "\<forall>k < length data. data' ! k = (if int k \<in> set (idx # rest) then 100 else data ! k)"
      using ih(3) n by (auto simp: nth_list_update)
    have c4: "set nobs' = set nobs \<union> {k. k < length data \<and> int k \<in> set (idx # rest) \<and> data ! k \<noteq> 100}"
      using ih(4) n True by (auto simp: nth_list_update split: if_splits)
    from ih(1,2) inb c3 c4 show ?thesis by simp
  next
    case False
    with Cons.prems n have rec: "mark_cells data nobs rest = Inr (data', nobs')"
      by simp
    from Cons.IH [OF rec] have ih:
      "length data' = length data"
      "\<forall>idx \<in> set rest. 0 \<le> idx \<and> idx < int (length data)"
      "\<forall>k < length data. data' ! k = (if int k \<in> set rest then 100 else data ! k)"
      "set nobs' = set nobs \<union> {k. k < length data \<and> int k \<in> set rest \<and> data ! k \<noteq> 100}"
      by simp_all
    have c3: "\<forall>k < length data. data' ! k = (if int k \<in> set (idx # rest) then 100 else data ! k)"
      using ih(3) n False by auto
    have c4: "set nobs' = set nobs \<union> {k. k < length data \<and> int k \<in> set (idx # rest) \<and> data ! k \<noteq> 100}"
      using ih(4) n False by auto
    from ih(1,2) inb c3 c4 show ?thesis by simp
  qed
qed

lemma clear_cells_Inr:
  "clear_cells data nobs = Inr data' \<Longrightarrow>
     length data' = length data \<and>
     (\<forall>k \<in> set nobs. k < length data) \<and>
     (\<forall>k < length data. data' ! k = (if k \<in> set nobs then 0 else data ! k))"
proof (induction nobs arbitrary: data)
  case Nil
  then show ?case by auto
next
  case (Cons n rest)
  from Cons.prems have n: "n < length data" by (auto split: if_splits)
  with Cons.prems have rec: "clear_cells (data[n := 0]) rest = Inr data'" by simp
  from Cons.IH [OF rec] have ih:
    "length data' = length data"
    "\<forall>k \<in> set rest. k < length data"
    "\<forall>k < length data. data' ! k = (if k \<in> set rest then 0 else data[n := 0] ! k)"
    by simp_all
  have "\<forall>k < length data. data' ! k = (if k \<in> set (n # rest) then 0 else data ! k)"
    using ih(3) n by (auto simp: nth_list_update)
  with ih(1,2) n show ?case by simp
qed


lemma marked_by_Nil: "marked_by [] data nobs data nobs"
  by (simp add: marked_by_def)

lemma marked_by_append:
  assumes "marked_by c1 data nobs d1 n1" and "marked_by c2 d1 n1 d2 n2"
  shows "marked_by (c1 @ c2) data nobs d2 n2"
proof -
  from assms have len: "length d1 = length data" "length d2 = length data"
    by (simp_all add: marked_by_def)
  from assms len have inb: "\<forall>idx \<in> set (c1 @ c2). 0 \<le> idx \<and> idx < int (length data)"
    by (auto simp: marked_by_def)
  from assms len have v1: "\<forall>k < length data. d1 ! k = (if int k \<in> set c1 then 100 else data ! k)"
    and v2: "\<forall>k < length data. d2 ! k = (if int k \<in> set c2 then 100 else d1 ! k)"
    by (simp_all add: marked_by_def)
  have vals: "\<forall>k < length data. d2 ! k = (if int k \<in> set (c1 @ c2) then 100 else data ! k)"
    using v1 v2 by auto
  from assms len have s1: "set n1 = set nobs \<union> {k. k < length data \<and> int k \<in> set c1 \<and> data ! k \<noteq> 100}"
    and s2: "set n2 = set n1 \<union> {k. k < length data \<and> int k \<in> set c2 \<and> d1 ! k \<noteq> 100}"
    by (simp_all add: marked_by_def)
  have "set n2 = set nobs \<union> {k. k < length data \<and> int k \<in> set (c1 @ c2) \<and> data ! k \<noteq> 100}"
    unfolding s2 s1 using v1 by (auto split: if_splits)
  with len inb vals show ?thesis by (simp add: marked_by_def)
qed

lemma mark_cells_marked_by:
  "mark_cells data nobs idxs = Inr (data', nobs') \<Longrightarrow> marked_by idxs data nobs data' nobs'"
  unfolding marked_by_def by (rule mark_cells_Inr)

lemma scan_loop_Inr:
  "scan_loop info r tf inc rs theta data nobs = Inr (data', nobs') \<Longrightarrow>
     marked_by (scan_cells info r tf inc rs theta) data nobs data' nobs'"
proof (induction rs arbitrary: theta data nobs)
  case Nil
  then show ?case by (simp add: marked_by_Nil)
next
  case (Cons a rest)
  show ?case
  proof (cases a)
    case (Finite hit)
    obtain x_map y_map where hp: "hit_point tf hit theta = (x_map, y_map)"
      by (cases "hit_point tf hit theta")
    from Cons.prems Finite hp obtain obs where
      ex: "expandObstacles info r x_map y_map = Inr obs"
      by (cases "expandObstacles info r x_map y_map") auto
    from Cons.prems Finite hp ex obtain d1 n1 where
      mk: "mark_cells data nobs obs = Inr (d1, n1)"
      by (cases "mark_cells data nobs obs") auto
    from Cons.prems Finite hp ex mk have
      rec: "scan_loop info r tf inc rest (theta + inc) d1 n1 = Inr (data', nobs')"
      by simp
    from marked_by_append [OF mark_cells_marked_by [OF mk] Cons.IH [OF rec]]
    show ?thesis using Finite hp ex by simp
  next
    case NaN
    with Cons show ?thesis by simp
  next
    case PosInf
    with Cons show ?thesis by simp
  next
    case NegInf
    with Cons show ?thesis by simp
  qed
qed


lemma updateStaticMap_Inr:
  assumes "updateStaticMap cfg s lookup scan = Inr s'"
  shows "\<exists>data nobs.
           marked_by (update_cells cfg s lookup scan) (input_map_data s) (new_obstacles s) data nobs \<and>
           (if clear_obstacles_count s + 1 > 50
            then clear_cells data nobs = Inr (input_map_data s') \<and> new_obstacles s' = []
                 \<and> clear_obstacles_count s' = 0
            else input_map_data s' = data \<and> new_obstacles s' = nobs
                 \<and> clear_obstacles_count s' = clear_obstacles_count s + 1) \<and>
           published s' = published s @ [input_map_data s'] \<and>
           input_map_info s' = input_map_info s \<and>
           tf_laser_to_map s' = (case lookup of Some tf \<Rightarrow> tf | None \<Rightarrow> tf_laser_to_map s)"
proof (cases lookup)
  case None
  let ?theta = "angle_min scan + real (length (ranges scan) div 6) * angle_increment scan"
  obtain data nobs where
    sl: "scan_loop (input_map_info s) (inflation_r cfg) (tf_laser_to_map s)
           (angle_increment scan) (scan_window (ranges scan)) ?theta
           (input_map_data s) (new_obstacles s) = Inr (data, nobs)"
    using assms None
    by (auto simp: updateStaticMap_def Let_def split: sum.splits)
  from scan_loop_Inr [OF sl] None have
    mb: "marked_by (update_cells cfg s lookup scan) (input_map_data s) (new_obstacles s) data nobs"
    by (simp add: update_cells_def)
  from assms None sl mb show ?thesis
    by (intro exI [of _ data] exI [of _ nobs])
       (auto simp: updateStaticMap_def Let_def split: sum.splits if_splits)
next
  case (Some tf)
  let ?theta = "angle_min scan + real (length (ranges scan) div 6) * angle_increment scan"
  obtain data nobs where
    sl: "scan_loop (input_map_info s) (inflation_r cfg) tf
           (angle_increment scan) (scan_window (ranges scan)) ?theta
           (input_map_data s) (new_obstacles s) = Inr (data, nobs)"
    using assms Some
    by (auto simp: updateStaticMap_def Let_def split: sum.splits)
  from scan_loop_Inr [OF sl] Some have
    mb: "marked_by (update_cells cfg s lookup scan) (input_map_data s) (new_obstacles s) data nobs"
    by (simp add: update_cells_def)
  from assms Some sl mb show ?thesis
    by (intro exI [of _ data] exI [of _ nobs])
       (auto simp: updateStaticMap_def Let_def split: sum.splits if_splits)
qed


lemma wrap_int32_id: "- (2 ^ 31) \<le> z \<Longrightarrow> z < 2 ^ 31 \<Longrightarrow> wrap_int32 z = z"
  by (simp add: wrap_int32_def)

lemma set_window_indices:
  "set (window_indices w r x y) =
     (\<lambda>(i, j). wrap_int32 (j * int w + i)) ` ({x - r ..< x + r} \<times> {y - r ..< y + r})"
proof -
  have "set (window_indices w r x y) =
          (\<Union>i \<in> {x - r .. x + r - 1}. (\<lambda>j. wrap_int32 (j * int w + i)) ` {y - r .. y + r - 1})"
    by (simp add: window_indices_def)
  also have "\<dots> = (\<lambda>(i, j). wrap_int32 (j * int w + i)) ` ({x - r ..< x + r} \<times> {y - r ..< y + r})"
    by (fastforce simp: image_iff)
  finally show ?thesis .
qed

lemma cell_index_bound:
  assumes "0 \<le> i" "i < int w" "0 \<le> j" "j < int h"
  shows "0 \<le> j * int w + i \<and> j * int w + i < int (w * h)"
proof -
  from assms have "j + 1 \<le> int h" by simp
  then have "(j + 1) * int w \<le> int h * int w"
    by (rule mult_right_mono) simp
  then have "j * int w + int w \<le> int (w * h)"
    by (simp add: algebra_simps)
  with assms show ?thesis by simp
qed

lemma window_indices_in_grid:
  assumes "r \<le> x" "x + r \<le> int w" "r \<le> y" "y + r \<le> int h" "w * h \<le> 2 ^ 31"
  shows "\<forall>idx \<in> set (window_indices w r x y). 0 \<le> idx \<and> idx < int (w * h)"
proof
  fix idx assume "idx \<in> set (window_indices w r x y)"
  then obtain i j where ij: "idx = wrap_int32 (j * int w + i)"
    "x - r \<le> i" "i < x + r" "y - r \<le> j" "j < y + r"
    by (auto simp: set_window_indices)
  with assms have "0 \<le> i" "i < int w" "0 \<le> j" "j < int h" by simp_all
  from cell_index_bound [OF this] have b: "0 \<le> j * int w + i" "j * int w + i < int (w * h)"
    by simp_all
  from assms(5) have "int (w * h) \<le> 2 ^ 31"
    by (metis of_nat_le_iff of_nat_numeral of_nat_power)
  with b have "wrap_int32 (j * int w + i) = j * int w + i"
    by (intro wrap_int32_id) simp_all
  with ij b show "0 \<le> idx \<and> idx < int (w * h)" by simp
qed

lemma updateStaticMap_new_marks:
  assumes "updateStaticMap cfg s lookup scan = Inr s'"
  shows "length (input_map_data s') = length (input_map_data s) \<and>
         (\<forall>k < length (input_map_data s').
            input_map_data s' ! k = 100 \<and> input_map_data s ! k \<noteq> 100 \<longrightarrow>
              int k \<in> set (update_cells cfg s lookup scan))"
proof -
  from updateStaticMap_Inr [OF assms] obtain data nobs where
    mb: "marked_by (update_cells cfg s lookup scan) (input_map_data s) (new_obstacles s) data nobs"
    and fin: "if clear_obstacles_count s + 1 > 50
            then clear_cells data nobs = Inr (input_map_data s') \<and> new_obstacles s' = []
                 \<and> clear_obstacles_count s' = 0
            else input_map_data s' = data \<and> new_obstacles s' = nobs
                 \<and> clear_obstacles_count s' = clear_obstacles_count s + 1"
    by blast
  from mb have len: "length data = length (input_map_data s)"
    and vals: "\<forall>k < length (input_map_data s).
                 data ! k = (if int k \<in> set (update_cells cfg s lookup scan) then 100
                             else input_map_data s ! k)"
    by (simp_all add: marked_by_def)
  show ?thesis
  proof (cases "clear_obstacles_count s + 1 > 50")
    case False
    with fin have "input_map_data s' = data" by simp
    with len vals show ?thesis by auto
  next
    case True
    with fin have cc: "clear_cells data nobs = Inr (input_map_data s')" by simp
    from clear_cells_Inr [OF cc] have
      l2: "length (input_map_data s') = length data" and
      v2: "\<forall>k < length data. input_map_data s' ! k = (if k \<in> set nobs then 0 else data ! k)"
      by simp_all
    from l2 len v2 vals show ?thesis by (auto split: if_splits)
  qed
qed


text \<open>Evaluation of the example inputs.\<close>

lemma hit_point_0: "hit_point (tf_at x y) h 0 = (h + x, y)"
  by (simp add: hit_point_def tf_at_def)

lemma window_edge: "window_indices 4 1 2 0 = [- 3, 1, - 2, 2]"
  by code_simp

lemma window_inside: "window_indices 4 1 2 2 = [5, 9, 6, 10]"
  by code_simp

lemma expand_edge: "expandObstacles ex_info 1 2 0 = Inr [- 3, 1, - 2, 2]"
  by (simp add: expandObstacles_def ex_info_def double_to_int_def trunc_def int_fits_def
        window_edge)

lemma expand_inside: "expandObstacles ex_info 1 2 2 = Inr [5, 9, 6, 10]"
  by (simp add: expandObstacles_def ex_info_def double_to_int_def trunc_def int_fits_def
        window_inside)

lemma scan_window_six: "scan_window [a, b, c, d, e, f] = [b, c, d, e]"
  by (simp add: scan_window_def)

lemma mark_inside:
  "mark_cells [0, 0, 0, 0, 0, 0, 0, 0, 0, 0, 0, 0, 0, 0, 0, 0] [] [5, 9, 6, 10]
     = Inr (ex_grid_marked, [5, 9, 6, 10])"
  unfolding ex_grid_marked_def by code_simp

lemma update_edge:
  "updateStaticMap ex_cfg ex_state (Some (tf_at 0 0)) (ex_scan (Finite 2)) = Inl OutOfBounds"
  by (simp add: updateStaticMap_def ex_state_def ex_scan_def ex_cfg_def scan_window_six
        hit_point_0 expand_edge)

lemma update_inside:
  "updateStaticMap ex_cfg ex_state (Some (tf_at 0 2)) (ex_scan (Finite 2))
     = Inr (ex_state_marked [RosInfo ''Map updated''])"
  by (simp add: updateStaticMap_def ex_state_def ex_state_marked_def ex_scan_def ex_cfg_def
        scan_window_six hit_point_0 expand_inside mark_inside int_fits_def
        ex_grid_marked_def [symmetric])

lemma update_lookup_failed:
  "updateStaticMap ex_cfg ex_state None (ex_scan (Finite 2))
     = Inr (ex_state_marked [RosError, RosInfo ''Map updated''])"
  by (simp add: updateStaticMap_def ex_state_def ex_state_marked_def ex_scan_def ex_cfg_def
        scan_window_six hit_point_0 expand_inside mark_inside int_fits_def
        ex_grid_marked_def [symmetric])

text \<open>
  Claim C1, as stated: every computed cell index is clamped to \<open>[0, width*height)\<close> and
  an index outside the grid is discarded without marking. On the 4 x 4 grid a hit in cell
  \<open>(2, 0)\<close> with inflation radius 1 makes \<open>expandObstacles\<close> return the indices \<open>-3\<close>
  and \<open>-2\<close> as they are, and the update uses them: it accesses the cell array out of
  bounds instead of discarding them.
\<close>

theorem expandObstacles_unclamped_counterexample:
  "expandObstacles ex_info 1 2 0 = Inr [- 3, 1, - 2, 2] \<and>
   updateStaticMap ex_cfg ex_state (Some (tf_at 0 0)) (ex_scan (Finite 2)) = Inl OutOfBounds"
  using expand_edge update_edge by simp

text \<open>
  Claim C1, amended. (a) An update that completes leaves the size of the cell array
  unchanged, and every cell it turns into OCCUPIED (100) is at an index that
  \<open>expandObstacles\<close> returned for a hit of that scan. (b) \<open>expandObstacles\<close> returns the
  index \<open>j*width + i\<close> of every \<open>(i, j)\<close> of the square window
  \<open>[x - r, x + r) \<times> [y - r, y + r)\<close> around the hit cell, none clamped and none left out.
  (c) When that window lies inside the grid (and the grid has at most \<open>2 ^ 31\<close> cells),
  all these indices lie in \<open>[0, width*height)\<close>.
\<close>

theorem grid_marks_within_hit_windows:
  "(updateStaticMap cfg s lookup scan = Inr s' \<longrightarrow>
      length (input_map_data s') = length (input_map_data s) \<and>
      (\<forall>k < length (input_map_data s').
         input_map_data s' ! k = 100 \<and> input_map_data s ! k \<noteq> 100 \<longrightarrow>
           int k \<in> set (update_cells cfg s lookup scan))) \<and>
   set (window_indices w r x y) =
     (\<lambda>(i, j). wrap_int32 (j * int w + i)) ` ({x - r ..< x + r} \<times> {y - r ..< y + r}) \<and>
   (r \<le> x \<and> x + r \<le> int w \<and> r \<le> y \<and> y + r \<le> int h \<and> w * h \<le> 2 ^ 31 \<longrightarrow>
      (\<forall>idx \<in> set (window_indices w r x y). 0 \<le> idx \<and> idx < int (w * h)))"
  using updateStaticMap_new_marks [of cfg s lookup scan s']
    set_window_indices [of w r x y] window_indices_in_grid [of r x w y h]
  by blast

theorem grid_marks_within_hit_windows_witness:
  "updateStaticMap ex_cfg ex_state (Some (tf_at 0 2)) (ex_scan (Finite 2))
     = Inr (ex_state_marked [RosInfo ''Map updated'']) \<and>
   ((1::int) \<le> 2 \<and> (2::int) + 1 \<le> int 4 \<and> (4::nat) * 4 \<le> 2 ^ 31) \<and>
   length (input_map_data (ex_state_marked [RosInfo ''Map updated''])) = length (input_map_data ex_state) \<and>
   input_map_data (ex_state_marked [RosInfo ''Map updated'']) ! 5 = 100 \<and>
   input_map_data ex_state ! 5 \<noteq> 100 \<and>
   int 5 \<in> set (update_cells ex_cfg ex_state (Some (tf_at 0 2)) (ex_scan (Finite 2))) \<and>
   window_indices 4 1 2 2 = [5, 9, 6, 10] \<and>
   list_all (\<lambda>idx. 0 \<le> idx \<and> idx < int (4 * 4)) (window_indices 4 1 2 2)"
proof -
  have bounds: "(1::int) \<le> 2 \<and> (2::int) + 1 \<le> int 4 \<and> (4::nat) * 4 \<le> 2 ^ 31"
    by simp
  have cell: "input_map_data (ex_state_marked [RosInfo ''Map updated'']) ! 5 = 100"
    "input_map_data ex_state ! 5 \<noteq> 100"
    "(5::nat) < length (input_map_data (ex_state_marked [RosInfo ''Map updated'']))"
    by (simp_all add: ex_state_marked_def ex_state_def ex_grid_marked_def)
  from grid_marks_within_hit_windows
         [of ex_cfg ex_state "Some (tf_at 0 2)" "ex_scan (Finite 2)"
             "ex_state_marked [RosInfo ''Map updated'']" 4 1 2 2 4]
       update_inside bounds
  have inst:
    "length (input_map_data (ex_state_marked [RosInfo ''Map updated''])) = length (input_map_data ex_state)"
    "\<forall>k < length (input_map_data (ex_state_marked [RosInfo ''Map updated''])).
       input_map_data (ex_state_marked [RosInfo ''Map updated'']) ! k = 100
         \<and> input_map_data ex_state ! k \<noteq> 100 \<longrightarrow>
       int k \<in> set (update_cells ex_cfg ex_state (Some (tf_at 0 2)) (ex_scan (Finite 2)))"
    "\<forall>idx \<in> set (window_indices 4 1 2 2). 0 \<le> idx \<and> idx < int (4 * 4)"
    by blast+
  from inst(2) cell have
    "int 5 \<in> set (update_cells ex_cfg ex_state (Some (tf_at 0 2)) (ex_scan (Finite 2)))"
    by blast
  moreover from inst(3) have
    "list_all (\<lambda>idx. 0 \<le> idx \<and> idx < int (4 * 4)) (window_indices 4 1 2 2)"
    by (simp add: list_all_iff)
  ultimately show ?thesis
    using update_inside bounds inst(1) cell(1,2) window_inside by blast
qed

text \<open>
  Claim C5, as stated: when the lookup of the transform fails, the update cycle is
  skipped. With the failed lookup the example update marks four cells with the transform
  of the cycle before, advances the counter from 0 to 1 and publishes the grid.
\<close>

theorem failed_lookup_not_skipped_counterexample:
  "updateStaticMap ex_cfg ex_state None (ex_scan (Finite 2))
     = Inr (ex_state_marked [RosError, RosInfo ''Map updated'']) \<and>
   input_map_data (ex_state_marked [RosError, RosInfo ''Map updated'']) \<noteq> input_map_data ex_state \<and>
   new_obstacles (ex_state_marked [RosError, RosInfo ''Map updated'']) = [5, 9, 6, 10] \<and>
   clear_obstacles_count ex_state = 0 \<and>
   clear_obstacles_count (ex_state_marked [RosError, RosInfo ''Map updated'']) = 1 \<and>
   published ex_state = [] \<and>
   published (ex_state_marked [RosError, RosInfo ''Map updated'']) = [ex_grid_marked]"
  using update_lookup_failed
  by (simp add: ex_state_marked_def ex_state_def ex_grid_marked_def)

lemma updateStaticMap_None_eq:
  "updateStaticMap cfg s None scan =
     updateStaticMap cfg (s\<lparr>ros_log := ros_log s @ [RosError]\<rparr>) (Some (tf_laser_to_map s)) scan"
  by (simp add: updateStaticMap_def Let_def)

lemma updateStaticMap_log:
  assumes "updateStaticMap cfg s lookup scan = Inr s'"
  shows "ros_log s' = ros_log s @ (case lookup of None \<Rightarrow> [RosError] | Some tf \<Rightarrow> []) @ [RosInfo ''Map updated'']"
  using assms
  by (cases lookup) (auto simp: updateStaticMap_def Let_def split: sum.splits if_splits)

text \<open>
  Claim C5, amended. When the lookup of the transform fails, the update keeps the
  transform of the cycle before and logs the failure, and then does exactly what an
  update does that looked that same transform up: it marks the cells of the scan,
  advances the counter (or decays) and publishes the grid.
\<close>

theorem failed_lookup_update_proceeds:
  "updateStaticMap cfg s None scan =
     updateStaticMap cfg (s\<lparr>ros_log := ros_log s @ [RosError]\<rparr>) (Some (tf_laser_to_map s)) scan \<and>
   (updateStaticMap cfg s None scan = Inr s' \<longrightarrow>
      tf_laser_to_map s' = tf_laser_to_map s \<and>
      ros_log s' = ros_log s @ [RosError, RosInfo ''Map updated''] \<and>
      clear_obstacles_count s' =
        (if clear_obstacles_count s + 1 > 50 then 0 else clear_obstacles_count s + 1) \<and>
      published s' = published s @ [input_map_data s'])"
proof (intro conjI impI)
  show "updateStaticMap cfg s None scan =
     updateStaticMap cfg (s\<lparr>ros_log := ros_log s @ [RosError]\<rparr>) (Some (tf_laser_to_map s)) scan"
    by (rule updateStaticMap_None_eq)
next
  assume u: "updateStaticMap cfg s None scan = Inr s'"
  from updateStaticMap_Inr [OF u] show "tf_laser_to_map s' = tf_laser_to_map s" by auto
  from updateStaticMap_log [OF u] show "ros_log s' = ros_log s @ [RosError, RosInfo ''Map updated'']"
    by simp
  from updateStaticMap_Inr [OF u] show "clear_obstacles_count s' =
        (if clear_obstacles_count s + 1 > 50 then 0 else clear_obstacles_count s + 1)"
    by (auto split: if_splits)
  from updateStaticMap_Inr [OF u] show "published s' = published s @ [input_map_data s']" by auto
qed

theorem failed_lookup_update_proceeds_witness:
  "updateStaticMap ex_cfg ex_state None (ex_scan (Finite 2))
     = Inr (ex_state_marked [RosError, RosInfo ''Map updated'']) \<and>
   updateStaticMap ex_cfg ex_state None (ex_scan (Finite 2)) =
     updateStaticMap ex_cfg (ex_state\<lparr>ros_log := ros_log ex_state @ [RosError]\<rparr>)
       (Some (tf_laser_to_map ex_state)) (ex_scan (Finite 2)) \<and>
   tf_laser_to_map (ex_state_marked [RosError, RosInfo ''Map updated'']) = tf_laser_to_map ex_state \<and>
   ros_log (ex_state_marked [RosError, RosInfo ''Map updated''])
     = ros_log ex_state @ [RosError, RosInfo ''Map updated''] \<and>
   clear_obstacles_count (ex_state_marked [RosError, RosInfo ''Map updated'']) = 1 \<and>
   published (ex_state_marked [RosError, RosInfo ''Map updated''])
     = published ex_state @ [input_map_data (ex_state_marked [RosError, RosInfo ''Map updated''])]"
proof -
  have c: "clear_obstacles_count ex_state = 0" by (simp add: ex_state_def)
  from failed_lookup_update_proceeds
         [of ex_cfg ex_state "ex_scan (Finite 2)" "ex_state_marked [RosError, RosInfo ''Map updated'']"]
       update_lookup_failed c
  show ?thesis by simp
qed


lemma update_keeps_free:
  assumes u: "updateStaticMap cfg s lookup scan = Inr s'"
    and k: "k < length (input_map_data s)" "input_map_data s ! k = 0"
    and nh: "int k \<notin> set (update_cells cfg s lookup scan)"
  shows "k < length (input_map_data s') \<and> input_map_data s' ! k = 0"
proof -
  from updateStaticMap_Inr [OF u] obtain data nobs where
    mb: "marked_by (update_cells cfg s lookup scan) (input_map_data s) (new_obstacles s) data nobs"
    and fin: "if clear_obstacles_count s + 1 > 50
            then clear_cells data nobs = Inr (input_map_data s') \<and> new_obstacles s' = []
                 \<and> clear_obstacles_count s' = 0
            else input_map_data s' = data \<and> new_obstacles s' = nobs
                 \<and> clear_obstacles_count s' = clear_obstacles_count s + 1"
    by blast
  from mb k nh have d: "length data = length (input_map_data s)" "data ! k = 0"
    by (simp_all add: marked_by_def)
  show ?thesis
  proof (cases "clear_obstacles_count s + 1 > 50")
    case False
    with fin d k show ?thesis by simp
  next
    case True
    with fin have cc: "clear_cells data nobs = Inr (input_map_data s')" by simp
    from clear_cells_Inr [OF cc] d k show ?thesis by simp
  qed
qed

lemma run_keeps_free:
  "run_updates cfg s ups = Inr s2 \<Longrightarrow> never_hit cfg s ups k \<Longrightarrow>
   k < length (input_map_data s) \<Longrightarrow> input_map_data s ! k = 0 \<Longrightarrow>
   k < length (input_map_data s2) \<and> input_map_data s2 ! k = 0"
proof (induction ups arbitrary: s)
  case Nil
  then show ?case by simp
next
  case (Cons u rest)
  obtain lookup scan where u: "u = (lookup, scan)" by (cases u)
  from Cons.prems(1) u obtain s' where
    st: "updateStaticMap cfg s lookup scan = Inr s'" and
    run: "run_updates cfg s' rest = Inr s2"
    by (cases "updateStaticMap cfg s lookup scan") auto
  from Cons.prems(2) u st have nh: "int k \<notin> set (update_cells cfg s lookup scan)"
    and nhr: "never_hit cfg s' rest k"
    by simp_all
  from update_keeps_free [OF st Cons.prems(3,4) nh] Cons.IH [OF run nhr]
  show ?case by blast
qed

lemma update_pending:
  assumes u: "updateStaticMap cfg s lookup scan = Inr s'"
    and k: "k \<in> set (new_obstacles s)"
  shows "if clear_obstacles_count s + 1 > 50
         then k < length (input_map_data s') \<and> input_map_data s' ! k = 0
         else k \<in> set (new_obstacles s') \<and> clear_obstacles_count s' = clear_obstacles_count s + 1"
proof -
  from updateStaticMap_Inr [OF u] obtain data nobs where
    mb: "marked_by (update_cells cfg s lookup scan) (input_map_data s) (new_obstacles s) data nobs"
    and fin: "if clear_obstacles_count s + 1 > 50
            then clear_cells data nobs = Inr (input_map_data s') \<and> new_obstacles s' = []
                 \<and> clear_obstacles_count s' = 0
            else input_map_data s' = data \<and> new_obstacles s' = nobs
                 \<and> clear_obstacles_count s' = clear_obstacles_count s + 1"
    by blast
  from mb k have kn: "k \<in> set nobs" by (simp add: marked_by_def)
  show ?thesis
  proof (cases "clear_obstacles_count s + 1 > 50")
    case False
    with fin kn show ?thesis by simp
  next
    case True
    with fin have cc: "clear_cells data nobs = Inr (input_map_data s')" by simp
    from clear_cells_Inr [OF cc] kn True show ?thesis by simp
  qed
qed

lemma run_decays_pending:
  "run_updates cfg s ups = Inr s2 \<Longrightarrow> never_hit cfg s ups k \<Longrightarrow>
   k \<in> set (new_obstacles s) \<Longrightarrow> clear_obstacles_count s \<le> 50 \<Longrightarrow>
   51 \<le> clear_obstacles_count s + int (length ups) \<Longrightarrow>
   k < length (input_map_data s2) \<and> input_map_data s2 ! k = 0"
proof (induction ups arbitrary: s)
  case Nil
  then show ?case by simp
next
  case (Cons u rest)
  obtain lookup scan where u: "u = (lookup, scan)" by (cases u)
  from Cons.prems(1) u obtain s' where
    st: "updateStaticMap cfg s lookup scan = Inr s'" and
    run: "run_updates cfg s' rest = Inr s2"
    by (cases "updateStaticMap cfg s lookup scan") auto
  from Cons.prems(2) u st have nhr: "never_hit cfg s' rest k"
    by simp
  show ?case
  proof (cases "clear_obstacles_count s + 1 > 50")
    case True
    with update_pending [OF st Cons.prems(3)] have
      "k < length (input_map_data s')" "input_map_data s' ! k = 0" by simp_all
    from run_keeps_free [OF run nhr this] show ?thesis .
  next
    case False
    with update_pending [OF st Cons.prems(3)] have
      p: "k \<in> set (new_obstacles s')" and c: "clear_obstacles_count s' = clear_obstacles_count s + 1"
      by simp_all
    from False c have c50: "clear_obstacles_count s' \<le> 50" by simp
    from Cons.prems(5) c have "51 \<le> clear_obstacles_count s' + int (length rest)" by simp
    from Cons.IH [OF run nhr p c50 this] show ?thesis .
  qed
qed

lemma decay_boundary:
  assumes u: "updateStaticMap cfg s lookup scan = Inr s'"
    and c: "clear_obstacles_count s + 1 > 50"
  shows "(\<forall>k. k \<in> set (new_obstacles s) \<or>
              (k < length (input_map_data s) \<and> int k \<in> set (update_cells cfg s lookup scan)
                 \<and> input_map_data s ! k \<noteq> 100) \<longrightarrow>
              k < length (input_map_data s') \<and> input_map_data s' ! k = 0) \<and>
         new_obstacles s' = [] \<and> clear_obstacles_count s' = 0 \<and>
         published s' = published s @ [input_map_data s']"
proof -
  from updateStaticMap_Inr [OF u] c obtain data nobs where
    mb: "marked_by (update_cells cfg s lookup scan) (input_map_data s) (new_obstacles s) data nobs"
    and cc: "clear_cells data nobs = Inr (input_map_data s')"
    and rest: "new_obstacles s' = []" "clear_obstacles_count s' = 0"
      "published s' = published s @ [input_map_data s']"
    by auto
  from mb have pend: "set nobs = set (new_obstacles s) \<union>
      {k. k < length (input_map_data s) \<and> int k \<in> set (update_cells cfg s lookup scan)
          \<and> input_map_data s ! k \<noteq> 100}"
    by (simp add: marked_by_def)
  from clear_cells_Inr [OF cc] have
    "\<forall>k \<in> set nobs. k < length (input_map_data s') \<and> input_map_data s' ! k = 0"
    by simp
  with pend rest show ?thesis by auto
qed

text \<open>
  The decay as it works once the counter is non-negative, which it is from the first
  decay on. A cell that is in the pending list after an update that started with a
  non-negative counter is FREE again once 50 further updates have passed without a hit
  on it; and an update at which the counter passes the threshold (more than 50 after
  the increment) resets every cell of the pending list to FREE, those added by that very
  update included, empties the list and sets the counter to zero.
\<close>

lemma pending_cell_decays:
  "(0 \<le> clear_obstacles_count s_before \<and> updateStaticMap cfg s_before lookup_a scan_a = Inr s_added \<and>
    k \<in> set (new_obstacles s_added) \<and> length ups = 50 \<and> run_updates cfg s_added ups = Inr s_after \<and>
    never_hit cfg s_added ups k \<longrightarrow>
      k < length (input_map_data s_after) \<and> input_map_data s_after ! k = 0) \<and>
   (clear_obstacles_count s + 1 > 50 \<and> updateStaticMap cfg s lookup scan = Inr s' \<longrightarrow>
      (\<forall>j. j \<in> set (new_obstacles s) \<or>
            (j < length (input_map_data s) \<and> int j \<in> set (update_cells cfg s lookup scan)
               \<and> input_map_data s ! j \<noteq> 100) \<longrightarrow>
            j < length (input_map_data s') \<and> input_map_data s' ! j = 0) \<and>
      new_obstacles s' = [] \<and> clear_obstacles_count s' = 0)"
proof (intro conjI impI)
  assume a: "0 \<le> clear_obstacles_count s_before \<and> updateStaticMap cfg s_before lookup_a scan_a = Inr s_added \<and>
    k \<in> set (new_obstacles s_added) \<and> length ups = 50 \<and> run_updates cfg s_added ups = Inr s_after \<and>
    never_hit cfg s_added ups k"
  then have u0: "updateStaticMap cfg s_before lookup_a scan_a = Inr s_added" and k: "k \<in> set (new_obstacles s_added)"
    and run: "run_updates cfg s_added ups = Inr s_after" and nh: "never_hit cfg s_added ups k"
    and len: "length ups = 50" and c0: "0 \<le> clear_obstacles_count s_before"
    by simp_all
  from updateStaticMap_Inr [OF u0] k have nodecay: "\<not> clear_obstacles_count s_before + 1 > 50"
    and c1: "clear_obstacles_count s_added = clear_obstacles_count s_before + 1"
    by (auto split: if_splits)
  from nodecay c1 have c50: "clear_obstacles_count s_added \<le> 50" by simp
  from c0 c1 len have "51 \<le> clear_obstacles_count s_added + int (length ups)" by simp
  from run_decays_pending [OF run nh k c50 this]
  show "k < length (input_map_data s_after)" "input_map_data s_after ! k = 0" by simp_all
next
  assume b: "clear_obstacles_count s + 1 > 50 \<and> updateStaticMap cfg s lookup scan = Inr s'"
  then have u: "updateStaticMap cfg s lookup scan = Inr s'" and c: "clear_obstacles_count s + 1 > 50"
    by simp_all
  from decay_boundary [OF u c]
  show "\<forall>j. j \<in> set (new_obstacles s) \<or>
            (j < length (input_map_data s) \<and> int j \<in> set (update_cells cfg s lookup scan)
               \<and> input_map_data s ! j \<noteq> 100) \<longrightarrow>
            j < length (input_map_data s') \<and> input_map_data s' ! j = 0"
    "new_obstacles s' = []" "clear_obstacles_count s' = 0"
    by blast+
qed


lemma clear_cells_total:
  "\<forall>k \<in> set nobs. k < length data \<Longrightarrow> \<exists>d. clear_cells data nobs = Inr d"
  by (induction nobs arbitrary: data) auto

lemma update_cells_quiet: "update_cells cfg s lookup (ex_scan NaN) = []"
  by (simp add: update_cells_def ex_scan_def scan_window_six)

lemma quiet_update_total:
  assumes "\<forall>k \<in> set (new_obstacles s). k < length (input_map_data s)"
    and "int_fits (clear_obstacles_count s + 1)"
  shows "\<exists>s'. updateStaticMap cfg s lookup (ex_scan NaN) = Inr s' \<and>
              (\<forall>k \<in> set (new_obstacles s'). k < length (input_map_data s')) \<and>
              int_fits (clear_obstacles_count s' + 1)"
proof (cases "clear_obstacles_count s + 1 > 50")
  case False
  with assms show ?thesis
    by (cases lookup)
       (simp_all add: updateStaticMap_def ex_scan_def scan_window_six int_fits_def)
next
  case True
  from clear_cells_total [OF assms(1)] obtain d where
    "clear_cells (input_map_data s) (new_obstacles s) = Inr d" by blast
  with True assms(2) show ?thesis
    by (cases lookup)
       (simp_all add: updateStaticMap_def ex_scan_def scan_window_six int_fits_def)
qed

lemma quiet_run_total:
  "\<forall>k \<in> set (new_obstacles s). k < length (input_map_data s) \<Longrightarrow>
   int_fits (clear_obstacles_count s + 1) \<Longrightarrow>
   \<exists>s2. run_updates cfg s (replicate n (lookup, ex_scan NaN)) = Inr s2"
proof (induction n arbitrary: s)
  case 0
  then show ?case by simp
next
  case (Suc n)
  from quiet_update_total [OF Suc.prems] obtain s' where
    u: "updateStaticMap cfg s lookup (ex_scan NaN) = Inr s'" and
    inv: "\<forall>k \<in> set (new_obstacles s'). k < length (input_map_data s')" and
    fit: "int_fits (clear_obstacles_count s' + 1)"
    by blast
  from Suc.IH [OF inv fit] u show ?case by simp
qed

text \<open>Updates without a hit and without a decay change the counter only.\<close>

lemma quiet_update_no_decay:
  assumes "clear_obstacles_count s + 1 \<le> 50" and "int_fits (clear_obstacles_count s + 1)"
  shows "\<exists>s'. updateStaticMap cfg s lookup (ex_scan NaN) = Inr s' \<and>
              input_map_data s' = input_map_data s \<and> new_obstacles s' = new_obstacles s \<and>
              clear_obstacles_count s' = clear_obstacles_count s + 1"
  using assms
  by (cases lookup) (simp_all add: updateStaticMap_def ex_scan_def scan_window_six)

lemma quiet_run_no_decay:
  "clear_obstacles_count s + int n \<le> 50 \<Longrightarrow> - (2 ^ 31) \<le> clear_obstacles_count s + 1 \<Longrightarrow>
   \<exists>s2. run_updates cfg s (replicate n (lookup, ex_scan NaN)) = Inr s2 \<and>
        input_map_data s2 = input_map_data s \<and> new_obstacles s2 = new_obstacles s \<and>
        clear_obstacles_count s2 = clear_obstacles_count s + int n"
proof (induction n arbitrary: s)
  case 0
  then show ?case by simp
next
  case (Suc n)
  from Suc.prems have le: "clear_obstacles_count s + 1 \<le> 50"
    and fit: "int_fits (clear_obstacles_count s + 1)"
    by (simp_all add: int_fits_def)
  from quiet_update_no_decay [OF le fit] obtain s' where
    u: "updateStaticMap cfg s lookup (ex_scan NaN) = Inr s'" and
    same: "input_map_data s' = input_map_data s" "new_obstacles s' = new_obstacles s" and
    c: "clear_obstacles_count s' = clear_obstacles_count s + 1"
    by blast
  from Suc.prems c have "clear_obstacles_count s' + int n \<le> 50"
    "- (2 ^ 31) \<le> clear_obstacles_count s' + 1"
    by simp_all
  from Suc.IH [OF this] obtain s2 where
    "run_updates cfg s' (replicate n (lookup, ex_scan NaN)) = Inr s2"
    "input_map_data s2 = input_map_data s'" "new_obstacles s2 = new_obstacles s'"
    "clear_obstacles_count s2 = clear_obstacles_count s' + int n"
    by blast
  with u same c show ?case by simp
qed

lemma quiet_never_hit: "never_hit cfg s (replicate n (lookup, ex_scan NaN)) k"
  by (induction n arbitrary: s) (auto simp: update_cells_quiet split: sum.splits)

lemma mark_again:
  "mark_cells ex_grid_marked [5, 9, 6, 10] [5, 9, 6, 10] = Inr (ex_grid_marked, [5, 9, 6, 10])"
  unfolding ex_grid_marked_def by code_simp

lemma clear_marked: "clear_cells ex_grid_marked [5, 9, 6, 10] = Inr ex_grid_free"
  unfolding ex_grid_marked_def ex_grid_free_def by code_simp

lemma mark_free:
  "mark_cells ex_grid_free [] [5, 9, 6, 10] = Inr (ex_grid_marked, [5, 9, 6, 10])"
  unfolding ex_grid_marked_def ex_grid_free_def by code_simp

lemma update_due:
  "updateStaticMap ex_cfg ex_state_due (Some (tf_at 0 2)) (ex_scan (Finite 2)) = Inr ex_state_cleared"
  by (simp add: updateStaticMap_def ex_state_due_def ex_state_marked_def ex_state_def
        ex_state_cleared_def ex_scan_def ex_cfg_def scan_window_six hit_point_0 expand_inside
        mark_again clear_marked int_fits_def del: mark_cells.simps clear_cells.simps)

lemma update_cleared:
  "updateStaticMap ex_cfg ex_state_cleared (Some (tf_at 0 2)) (ex_scan (Finite 2)) = Inr ex_state_remarked"
  by (simp add: updateStaticMap_def ex_state_def ex_state_remarked_def
        ex_state_cleared_def ex_scan_def ex_cfg_def scan_window_six hit_point_0 expand_inside
        mark_free int_fits_def del: mark_cells.simps)

lemma update_cells_inside:
  assumes "input_map_info s = ex_info"
  shows "update_cells ex_cfg s (Some (tf_at 0 2)) (ex_scan (Finite 2)) = [5, 9, 6, 10]"
  using assms
  by (simp add: update_cells_def ex_scan_def ex_cfg_def scan_window_six hit_point_0 expand_inside)

lemma pending_cell_decays_example:
  "0 \<le> clear_obstacles_count ex_state \<and>
   updateStaticMap ex_cfg ex_state (Some (tf_at 0 2)) (ex_scan (Finite 2))
     = Inr (ex_state_marked [RosInfo ''Map updated'']) \<and>
   5 \<in> set (new_obstacles (ex_state_marked [RosInfo ''Map updated''])) \<and>
   length ex_quiet = 50 \<and>
   run_updates ex_cfg (ex_state_marked [RosInfo ''Map updated'']) ex_quiet
     = Inr (projr (run_updates ex_cfg (ex_state_marked [RosInfo ''Map updated'']) ex_quiet)) \<and>
   never_hit ex_cfg (ex_state_marked [RosInfo ''Map updated'']) ex_quiet 5 \<and>
   input_map_data (projr (run_updates ex_cfg (ex_state_marked [RosInfo ''Map updated'']) ex_quiet)) ! 5 = 0 \<and>
   clear_obstacles_count ex_state_due + 1 > 50 \<and>
   updateStaticMap ex_cfg ex_state_due (Some (tf_at 0 2)) (ex_scan (Finite 2)) = Inr ex_state_cleared \<and>
   5 \<in> set (new_obstacles ex_state_due) \<and>
   input_map_data ex_state_cleared ! 5 = 0 \<and>
   new_obstacles ex_state_cleared = [] \<and> clear_obstacles_count ex_state_cleared = 0"
proof -
  let ?s1 = "ex_state_marked [RosInfo ''Map updated'']"
  let ?s2 = "projr (run_updates ex_cfg ?s1 ex_quiet)"
  have c0: "0 \<le> clear_obstacles_count ex_state" by (simp add: ex_state_def)
  have k: "5 \<in> set (new_obstacles ?s1)" by (simp add: ex_state_marked_def)
  have len: "length ex_quiet = 50" by (simp add: ex_quiet_def)
  have "\<forall>k \<in> set (new_obstacles ?s1). k < length (input_map_data ?s1)"
    by (simp add: ex_state_marked_def ex_grid_marked_def)
  moreover have "int_fits (clear_obstacles_count ?s1 + 1)"
    by (simp add: ex_state_marked_def int_fits_def)
  ultimately have "\<exists>s2. run_updates ex_cfg ?s1 ex_quiet = Inr s2"
    unfolding ex_quiet_def by (rule quiet_run_total)
  then have run: "run_updates ex_cfg ?s1 ex_quiet = Inr ?s2"
    by (metis sum.sel(2))
  have nh: "never_hit ex_cfg ?s1 ex_quiet 5"
    unfolding ex_quiet_def by (rule quiet_never_hit)
  have due: "clear_obstacles_count ex_state_due + 1 > 50"
    by (simp add: ex_state_due_def)
  have kd: "5 \<in> set (new_obstacles ex_state_due)"
    by (simp add: ex_state_due_def ex_state_marked_def)
  note inst = pending_cell_decays [where s_before = ex_state and cfg = ex_cfg
      and lookup_a = "Some (tf_at 0 2)" and scan_a = "ex_scan (Finite 2)" and s_added = ?s1
      and k = 5 and ups = ex_quiet and s_after = ?s2 and s = ex_state_due
      and lookup = "Some (tf_at 0 2)" and scan = "ex_scan (Finite 2)" and s' = ex_state_cleared]
  from inst c0 update_inside k len run nh have p1: "input_map_data ?s2 ! 5 = 0"
    by blast
  from inst due update_due kd have p2: "input_map_data ex_state_cleared ! 5 = 0"
    "new_obstacles ex_state_cleared = []" "clear_obstacles_count ex_state_cleared = 0"
    by blast+
  from c0 update_inside k len run nh p1 due update_due kd p2 show ?thesis by blast
qed


lemma update_unset:
  "updateStaticMap ex_cfg ex_state_unset (Some (tf_at 0 2)) (ex_scan (Finite 2))
     = Inr ex_state_unset_marked"
  by (simp add: updateStaticMap_def ex_state_unset_def ex_state_unset_marked_def ex_state_def
        ex_state_marked_def ex_scan_def ex_cfg_def scan_window_six hit_point_0 expand_inside
        mark_inside int_fits_def ex_grid_marked_def [symmetric])

text \<open>
  Claim C8. A cell added to the pending list is claimed to be FREE again once the
  threshold number of further updates, 50, has passed without a hit on it. The counter
  \<open>clear_obstacles_count_\<close> is incremented and compared in every update and reset at every
  decay, but no constructor gives it its first value. With the value \<open>-101\<close> at the
  first scan, the update with a hit at range 2 adds cell 5 to the pending list and leaves
  the counter at \<open>-100\<close>; after 50 further updates without any hit the counter is
  \<open>-50\<close>, no decay has run and cell 5 is still OCCUPIED.
\<close>

theorem pending_cell_outlives_threshold:
  "updateStaticMap ex_cfg ex_state_unset (Some (tf_at 0 2)) (ex_scan (Finite 2))
     = Inr ex_state_unset_marked \<and>
   input_map_data ex_state_unset ! 5 = 0 \<and>
   5 \<in> set (new_obstacles ex_state_unset_marked) \<and>
   length ex_quiet = 50 \<and>
   never_hit ex_cfg ex_state_unset_marked ex_quiet 5 \<and>
   run_updates ex_cfg ex_state_unset_marked ex_quiet
     = Inr (projr (run_updates ex_cfg ex_state_unset_marked ex_quiet)) \<and>
   clear_obstacles_count (projr (run_updates ex_cfg ex_state_unset_marked ex_quiet)) = - 50 \<and>
   input_map_data (projr (run_updates ex_cfg ex_state_unset_marked ex_quiet)) ! 5 = 100"
proof -
  have free: "input_map_data ex_state_unset ! 5 = 0"
    by (simp add: ex_state_unset_def ex_state_def)
  have k: "5 \<in> set (new_obstacles ex_state_unset_marked)"
    by (simp add: ex_state_unset_marked_def ex_state_marked_def)
  have len: "length ex_quiet = 50" by (simp add: ex_quiet_def)
  have nh: "never_hit ex_cfg ex_state_unset_marked ex_quiet 5"
    unfolding ex_quiet_def by (rule quiet_never_hit)
  have c: "clear_obstacles_count ex_state_unset_marked = - 100"
    by (simp add: ex_state_unset_marked_def)
  have d: "input_map_data ex_state_unset_marked ! 5 = 100"
    by (simp add: ex_state_unset_marked_def ex_state_marked_def ex_grid_marked_def)
  from c have "clear_obstacles_count ex_state_unset_marked + int 50 \<le> 50"
    "- (2 ^ 31) \<le> clear_obstacles_count ex_state_unset_marked + 1"
    by simp_all
  from quiet_run_no_decay [OF this, of ex_cfg "Some (tf_at 0 2)"] obtain s2 where
    run: "run_updates ex_cfg ex_state_unset_marked ex_quiet = Inr s2" and
    same: "input_map_data s2 = input_map_data ex_state_unset_marked" and
    cnt: "clear_obstacles_count s2 = clear_obstacles_count ex_state_unset_marked + int 50"
    unfolding ex_quiet_def by blast
  from run have p: "projr (run_updates ex_cfg ex_state_unset_marked ex_quiet) = s2" by simp
  from update_unset free k len nh run same cnt c d show ?thesis
    unfolding p by simp
qed

lemma update_after_decay:
  assumes u: "updateStaticMap cfg s lookup scan = Inr s'"
    and c: "clear_obstacles_count s = 0"
  shows "published s' = published s @ [input_map_data s'] \<and>
         (\<forall>k. int k \<in> set (update_cells cfg s lookup scan) \<longrightarrow>
              k < length (input_map_data s') \<and> input_map_data s' ! k = 100)"
proof -
  from updateStaticMap_Inr [OF u] c obtain nobs where
    mb: "marked_by (update_cells cfg s lookup scan) (input_map_data s) (new_obstacles s)
           (input_map_data s') nobs"
    and pub: "published s' = published s @ [input_map_data s']"
    by auto
  from mb have "\<forall>k. int k \<in> set (update_cells cfg s lookup scan) \<longrightarrow>
              k < length (input_map_data s') \<and> input_map_data s' ! k = 100"
    by (auto simp: marked_by_def)
  with pub show ?thesis by simp
qed

text \<open>
  Claim C10. In an update at which the counter passes the threshold, the decay runs
  after the marking of that update and before the grid is published: every cell of the
  pending list, the cells marked by the hits of that very update included, is FREE in
  the grid published by that update. The counter is then 0, so the next update does not
  decay, and every cell it hits is OCCUPIED in the grid it publishes: an obstacle that is
  detected in every scan is missing from the published grid for that one cycle.
\<close>

theorem decay_follows_marking_precedes_publishing:
  "clear_obstacles_count s + 1 > 50 \<and> updateStaticMap cfg s lookup scan = Inr s' \<longrightarrow>
     published s' = published s @ [input_map_data s'] \<and>
     (\<forall>k. k \<in> set (new_obstacles s) \<or>
           (k < length (input_map_data s) \<and> int k \<in> set (update_cells cfg s lookup scan)
              \<and> input_map_data s ! k \<noteq> 100) \<longrightarrow>
           k < length (last (published s')) \<and> last (published s') ! k = 0) \<and>
     (\<forall>lookup2 scan2 s''. updateStaticMap cfg s' lookup2 scan2 = Inr s'' \<longrightarrow>
        (\<forall>k. int k \<in> set (update_cells cfg s' lookup2 scan2) \<longrightarrow>
             k < length (last (published s'')) \<and> last (published s'') ! k = 100))"
proof (intro impI)
  assume a: "clear_obstacles_count s + 1 > 50 \<and> updateStaticMap cfg s lookup scan = Inr s'"
  then have u: "updateStaticMap cfg s lookup scan = Inr s'" and c: "clear_obstacles_count s + 1 > 50"
    by simp_all
  from decay_boundary [OF u c] have
    freed: "\<forall>k. k \<in> set (new_obstacles s) \<or>
              (k < length (input_map_data s) \<and> int k \<in> set (update_cells cfg s lookup scan)
                 \<and> input_map_data s ! k \<noteq> 100) \<longrightarrow>
              k < length (input_map_data s') \<and> input_map_data s' ! k = 0"
    and c0: "clear_obstacles_count s' = 0"
    and pub: "published s' = published s @ [input_map_data s']"
    by blast+
  from pub have last: "last (published s') = input_map_data s'" by simp
  have next_update: "\<forall>lookup2 scan2 s''. updateStaticMap cfg s' lookup2 scan2 = Inr s'' \<longrightarrow>
        (\<forall>k. int k \<in> set (update_cells cfg s' lookup2 scan2) \<longrightarrow>
             k < length (last (published s'')) \<and> last (published s'') ! k = 100)"
  proof (intro allI impI)
    fix lookup2 scan2 s'' k
    assume u2: "updateStaticMap cfg s' lookup2 scan2 = Inr s''"
      and hit: "int k \<in> set (update_cells cfg s' lookup2 scan2)"
    from update_after_decay [OF u2 c0] hit
    show "k < length (last (published s'')) \<and> last (published s'') ! k = 100"
      by simp
  qed
  from pub freed next_update show
    "published s' = published s @ [input_map_data s'] \<and>
     (\<forall>k. k \<in> set (new_obstacles s) \<or>
           (k < length (input_map_data s) \<and> int k \<in> set (update_cells cfg s lookup scan)
              \<and> input_map_data s ! k \<noteq> 100) \<longrightarrow>
           k < length (last (published s')) \<and> last (published s') ! k = 0) \<and>
     (\<forall>lookup2 scan2 s''. updateStaticMap cfg s' lookup2 scan2 = Inr s'' \<longrightarrow>
        (\<forall>k. int k \<in> set (update_cells cfg s' lookup2 scan2) \<longrightarrow>
             k < length (last (published s'')) \<and> last (published s'') ! k = 100))"
    unfolding last by blast
qed

theorem decay_follows_marking_precedes_publishing_witness:
  "clear_obstacles_count ex_state_due + 1 > 50 \<and>
   updateStaticMap ex_cfg ex_state_due (Some (tf_at 0 2)) (ex_scan (Finite 2)) = Inr ex_state_cleared \<and>
   5 \<in> set (new_obstacles ex_state_due) \<and>
   int 5 \<in> set (update_cells ex_cfg ex_state_due (Some (tf_at 0 2)) (ex_scan (Finite 2))) \<and>
   published ex_state_cleared = published ex_state_due @ [input_map_data ex_state_cleared] \<and>
   last (published ex_state_cleared) ! 5 = 0 \<and>
   updateStaticMap ex_cfg ex_state_cleared (Some (tf_at 0 2)) (ex_scan (Finite 2)) = Inr ex_state_remarked \<and>
   int 5 \<in> set (update_cells ex_cfg ex_state_cleared (Some (tf_at 0 2)) (ex_scan (Finite 2))) \<and>
   last (published ex_state_remarked) ! 5 = 100"
proof -
  have due: "clear_obstacles_count ex_state_due + 1 > 50"
    by (simp add: ex_state_due_def)
  have kd: "5 \<in> set (new_obstacles ex_state_due)"
    by (simp add: ex_state_due_def ex_state_marked_def)
  have h1: "int 5 \<in> set (update_cells ex_cfg ex_state_due (Some (tf_at 0 2)) (ex_scan (Finite 2)))"
    by (simp add: update_cells_inside ex_state_due_def ex_state_marked_def ex_state_def)
  have h2: "int 5 \<in> set (update_cells ex_cfg ex_state_cleared (Some (tf_at 0 2)) (ex_scan (Finite 2)))"
    by (simp add: update_cells_inside ex_state_cleared_def ex_state_def)
  note inst = decay_follows_marking_precedes_publishing
     [of ex_state_due ex_cfg "Some (tf_at 0 2)" "ex_scan (Finite 2)" ex_state_cleared]
  from inst due update_due have
    p1: "published ex_state_cleared = published ex_state_due @ [input_map_data ex_state_cleared]"
    and p2: "\<forall>k. k \<in> set (new_obstacles ex_state_due) \<or>
           (k < length (input_map_data ex_state_due)
              \<and> int k \<in> set (update_cells ex_cfg ex_state_due (Some (tf_at 0 2)) (ex_scan (Finite 2)))
              \<and> input_map_data ex_state_due ! k \<noteq> 100) \<longrightarrow>
           k < length (last (published ex_state_cleared)) \<and> last (published ex_state_cleared) ! k = 0"
    and p3: "\<forall>lookup2 scan2 s''. updateStaticMap ex_cfg ex_state_cleared lookup2 scan2 = Inr s'' \<longrightarrow>
        (\<forall>k. int k \<in> set (update_cells ex_cfg ex_state_cleared lookup2 scan2) \<longrightarrow>
             k < length (last (published s'')) \<and> last (published s'') ! k = 100)"
    by blast+
  from p2 kd have q2: "last (published ex_state_cleared) ! 5 = 0" by blast
  from p3 update_cleared h2 have q3: "last (published ex_state_remarked) ! 5 = 100" by blast
  from due update_due kd h1 p1 q2 update_cleared h2 q3 show ?thesis by blast
qed


subsection \<open>Gap-Follower\<close>

lemma filter_open:
  "filter_loop 10 [PosInf, PosInf, PosInf, PosInf, PosInf, PosInf] 0 6 [] = Inr [10, 10, 10, 10, 10, 10]"
  by code_simp

lemma closest_open: "closestPoint [10, 10, 10, 10, 10, 10] = 0"
  by code_simp

lemma bubble_open:
  "eliminateBubble 1 1 [10, 10, 10, 10, 10, 10] 0 10 = Inr [10, 10, 10, 10, 10, 10]"
  by code_simp

lemma gap_run_open: "gap_run 1 [10, 10, 10, 10, 10, 10] 0 0 = (6, 6)"
  by code_simp

lemma gap_best_open: "gap_best 0 6 = 2"
  by (simp add: gap_best_def size_t_to_int_def)

lemma gaps_open: "findbestGapIdx 1 1 [10, 10, 10, 10, 10, 10] = Some [2]"
  by (simp add: findbestGapIdx_def gap_loop.simps [of _ _ _ 0] gap_loop.simps [of _ _ _ 6]
        gap_run_open gap_best_open)

lemma length_six: "length [a, b, c, d, e, f] = 6"
  by simp

lemma heading_open: "steering_option 1 6 2 = ex_heading"
  by (simp add: steering_option_def ex_heading_def)

lemma scan_headings_open:
  "scan_headings ex_cfg 0 6 1 ex_scan_open = Some (Inr [ex_heading])"
  by (simp add: scan_headings_def ex_cfg_def ex_scan_open_def filter_open closest_open
        bubble_open gaps_open heading_open length_six del: list.size length_Cons)

lemma scan_window_open: "scan_window (ranges ex_scan_open) = [PosInf, PosInf, PosInf, PosInf]"
  by (simp add: ex_scan_open_def scan_window_six)

lemma update_open_first:
  "updateStaticMap ex_cfg ex_state (Some (tf_at 0 2)) ex_scan_open
     = Inr (ex_state\<lparr>clear_obstacles_count := 1, published := [ex_grid_free],
                      ros_log := [RosInfo ''Map updated'']\<rparr>)"
  by (simp add: updateStaticMap_def scan_window_open)
     (simp add: ex_state_def ex_grid_free_def int_fits_def)

lemma truncation_first:
  "set_truncation (ex_state\<lparr>clear_obstacles_count := 1, published := [ex_grid_free],
                      ros_log := [RosInfo ''Map updated'']\<rparr>) ex_scan_open
     = Inr (ex_state\<lparr>clear_obstacles_count := 1, 
               truncate_done := True, start_idx := 0, end_idx := 6, angle_increment_m := 1,
               published := [ex_grid_free], ros_log := [RosInfo ''Map updated'']\<rparr>)"
  by (simp add: set_truncation_def ex_state_def ex_scan_open_def double_to_size_t_def trunc_def)

lemma callback_first:
  "scanCallback ex_cfg ex_state (Some (tf_at 0 2)) ex_scan_open = Some (Inr ex_state_first)"
  by (simp add: scanCallback_def update_open_first truncation_first scan_headings_open)
     (simp add: ex_state_def ex_state_first_def)

lemma update_open_second:
  "updateStaticMap ex_cfg ex_state_first (Some (tf_at 0 2)) ex_scan_open
     = Inr (ex_state_first\<lparr>clear_obstacles_count := 2, published := [ex_grid_free, ex_grid_free],
                      ros_log := [RosInfo ''Map updated'', RosInfo ''Map updated'']\<rparr>)"
  by (simp add: updateStaticMap_def scan_window_open)
     (simp add: ex_state_def ex_state_first_def ex_grid_free_def int_fits_def)

lemma callback_second:
  "scanCallback ex_cfg ex_state_first (Some (tf_at 0 2)) ex_scan_open = Some (Inr ex_state_second)"
  by (simp add: scanCallback_def update_open_second set_truncation_def)
     (simp add: ex_state_def ex_state_first_def ex_state_second_def scan_headings_open)


lemma updateStaticMap_steering:
  assumes "updateStaticMap cfg s lookup scan = Inr s'"
  shows "steering_options s' = steering_options s"
  using assms
  by (cases lookup) (auto simp: updateStaticMap_def Let_def split: sum.splits if_splits)

lemma set_truncation_steering:
  assumes "set_truncation s scan = Inr s'"
  shows "steering_options s' = steering_options s"
  using assms
  by (auto simp: set_truncation_def split: if_splits sum.splits)

text \<open>
  Claim C9, as stated: the candidate set is scoped to the cycle and never carries entries
  over from earlier callbacks. Two callbacks on the same all-open scan: the second scan
  alone yields one heading, and after the second callback \<open>steering_options_\<close> holds two,
  the first of them left by the first callback.
\<close>

theorem steering_options_accumulate_counterexample:
  "scanCallback ex_cfg ex_state (Some (tf_at 0 2)) ex_scan_open = Some (Inr ex_state_first) \<and>
   scanCallback ex_cfg ex_state_first (Some (tf_at 0 2)) ex_scan_open = Some (Inr ex_state_second) \<and>
   scan_headings ex_cfg (start_idx ex_state_second) (end_idx ex_state_second)
     (angle_increment_m ex_state_second) ex_scan_open = Some (Inr [ex_heading]) \<and>
   steering_options ex_state_first = [ex_heading] \<and>
   steering_options ex_state_second = [ex_heading, ex_heading]"
  using callback_first callback_second scan_headings_open
  by (simp add: ex_state_first_def ex_state_second_def)

text \<open>
  Claim C9, amended. A scan callback that completes computes the headings of the gaps
  accepted in its own scan (with the window and the angle increment fixed by the first
  scan) and appends them to the member \<open>steering_options_\<close>: the list afterwards is the
  list before, followed by the headings of this scan.
\<close>

theorem scanCallback_appends_headings:
  "scanCallback cfg s lookup scan = Some (Inr s') \<longrightarrow>
     (\<exists>headings.
        scan_headings cfg (start_idx s') (end_idx s') (angle_increment_m s') scan
          = Some (Inr headings) \<and>
        steering_options s' = steering_options s @ headings)"
proof
  assume cb: "scanCallback cfg s lookup scan = Some (Inr s')"
  then obtain s1 where u: "updateStaticMap cfg s lookup scan = Inr s1"
    by (cases "updateStaticMap cfg s lookup scan") (auto simp: scanCallback_def)
  from cb u obtain s2 where t: "set_truncation s1 scan = Inr s2"
    by (cases "set_truncation s1 scan") (auto simp: scanCallback_def)
  from cb u t obtain headings where
    h: "scan_headings cfg (start_idx s2) (end_idx s2) (angle_increment_m s2) scan
          = Some (Inr headings)"
    and s': "s' = s2\<lparr>steering_options := steering_options s2 @ headings\<rparr>"
    by (auto simp: scanCallback_def split: option.splits sum.splits)
  from updateStaticMap_steering [OF u] set_truncation_steering [OF t]
  have "steering_options s2 = steering_options s" by simp
  with h s' show
    "\<exists>headings.
        scan_headings cfg (start_idx s') (end_idx s') (angle_increment_m s') scan
          = Some (Inr headings) \<and>
        steering_options s' = steering_options s @ headings"
    by auto
qed

theorem scanCallback_appends_headings_witness:
  "scanCallback ex_cfg ex_state_first (Some (tf_at 0 2)) ex_scan_open = Some (Inr ex_state_second) \<and>
   scan_headings ex_cfg (start_idx ex_state_second) (end_idx ex_state_second)
     (angle_increment_m ex_state_second) ex_scan_open = Some (Inr [ex_heading]) \<and>
   steering_options ex_state_second = steering_options ex_state_first @ [ex_heading]"
proof -
  from scanCallback_appends_headings
         [of ex_cfg ex_state_first "Some (tf_at 0 2)" ex_scan_open ex_state_second]
       callback_second
  obtain headings where
    h: "scan_headings ex_cfg (start_idx ex_state_second) (end_idx ex_state_second)
          (angle_increment_m ex_state_second) ex_scan_open = Some (Inr headings)"
    and app: "steering_options ex_state_second = steering_options ex_state_first @ headings"
    by blast
  have "scan_headings ex_cfg (start_idx ex_state_second) (end_idx ex_state_second)
          (angle_increment_m ex_state_second) ex_scan_open = Some (Inr [ex_heading])"
    using scan_headings_open by (simp add: ex_state_second_def)
  with h have "headings = [ex_heading]" by simp
  with h app callback_second show ?thesis by simp
qed


lemma bubble_loop_1_2: "bubble_loop [5, 5, 1] (Suc 0) 2 = Inr [5, 0, 1]"
  by code_simp

lemma bubble_loop_0_2: "bubble_loop [5, 1, 5] 0 2 = Inr [0, 0, 5]"
  by code_simp

lemma bubble_right_edge: "eliminateBubble 1 1 [5, 5, 1] 2 1 = Inr [5, 0, 1]"
  by (simp add: eliminateBubble_def double_to_size_t_def cround_def trunc_def bubble_loop_1_2)

lemma bubble_interior: "eliminateBubble 1 1 [5, 1, 5] 1 1 = Inr [0, 0, 5]"
  by (simp add: eliminateBubble_def double_to_size_t_def cround_def trunc_def bubble_loop_0_2)

lemma bubble_left_edge: "eliminateBubble 1 1 [1, 5, 5] 0 1 = Inl BadConversion"
  by (simp add: eliminateBubble_def double_to_size_t_def cround_def trunc_def)

text \<open>
  Claim C7. The bubble is claimed to zero exactly the window of half-width
  \<open>(bubble_radius/d)/angle_increment\<close> around the closest index, cut to the array. With
  radius 1, increment 1 and distance 1 the half-width is 1. On \<open>[5, 5, 1]\<close> with the
  closest point at the last index 2 the window cut to the array is \<open>{1, 2}\<close>, and the
  source zeroes index 1 only, leaving the closest point itself: \<open>end\<close> is cut to
  \<open>size - 1\<close> and the loop stops before \<open>end\<close>. On \<open>[5, 1, 5]\<close> the window is
  \<open>{0, 1, 2}\<close> and index 2 is left. On \<open>[1, 5, 5]\<close> the start \<open>-1\<close> is converted to
  \<open>size_t\<close>, so the test \<open>start < 0\<close> cannot cut it to 0.
\<close>

theorem eliminateBubble_misses_window_end:
  "eliminateBubble 1 1 [5, 5, 1] 2 1 = Inr [5, 0, 1] \<and>
   eliminateBubble 1 1 [5, 1, 5] 1 1 = Inr [0, 0, 5] \<and>
   eliminateBubble 1 1 [1, 5, 5] 0 1 = Inl BadConversion"
  using bubble_right_edge bubble_interior bubble_left_edge by simp

subsection \<open>Waypoint Selector\<close>

lemma waypoint_body_error:
  "waypoint_body l tf g data gp i j d idx = Inl e \<Longrightarrow> e = OutOfBounds"
  by (auto simp: waypoint_body_def Let_def split: if_splits)

lemma waypoint_loop_error:
  "waypoint_loop l tf g data gp i j d idx = Inl e \<Longrightarrow> e = OutOfBounds"
proof (induction l tf g data gp i j d idx rule: waypoint_loop.induct)
  case (1 l tf g data gp i j d idx)
  show ?case
  proof (cases "i < length gp")
    case False
    with "1.prems" show ?thesis
      by (simp add: waypoint_loop.simps [of l tf g data gp i j d idx])
  next
    case True
    show ?thesis
    proof (cases "waypoint_body l tf g data gp i j d idx")
      case (Inl e')
      with "1.prems" True have "e = e'"
        by (simp add: waypoint_loop.simps [of l tf g data gp i j d idx])
      with waypoint_body_error [OF Inl] show ?thesis by simp
    next
      case (Inr p)
      obtain d2 idx2 where p: "p = (d2, idx2)" by (cases p)
      from "1.prems" True Inr p have
        rec: "waypoint_loop l tf g data gp (i + 1) j d2 idx2 = Inl e"
        by (simp add: waypoint_loop.simps [of l tf g data gp i j d idx])
      from "1.IH" [OF True Inr [unfolded p] refl rec] show ?thesis .
    qed
  qed
qed

lemma waypoints_loop_out_of_bounds:
  assumes "int i < path_num cfg"
  shows "waypoints_loop cfg tf g data gp i wps = Inl OutOfBounds"
proof (cases "waypoint_loop (lookahead_d cfg) tf g data gp i 0 DBL_MAX (- 1)")
  case (Inl e)
  with waypoint_loop_error [OF Inl] assms show ?thesis
    by (simp add: waypoints_loop.simps [of cfg tf g data gp i wps])
next
  case (Inr r)
  obtain i' d' idx' where r: "r = (i', d', idx')" by (cases r)
  from waypoint_loop_end [OF Inr [unfolded r]] have "\<not> i' < length gp" by simp
  with Inr r assms show ?thesis
    by (simp add: waypoints_loop.simps [of cfg tf g data gp i wps])
qed

lemma findWaypoints_out_of_bounds:
  assumes "0 < path_num cfg"
  shows "snd (findWaypoints cfg g gp s lookup) = Inl OutOfBounds"
  using assms by (simp add: findWaypoints_def Let_def waypoints_loop_out_of_bounds)

lemma waypoint_body_takes_x_twice:
  "waypoint_body 1 (tf_at 0 0) ex_getMapIdx [0] [[waypoint_at 0 1]] 0 0 DBL_MAX (- 1) = Inr (1, 0)"
  by (simp add: waypoint_body_def doTransform_def tf_at_def waypoint_at_def ex_getMapIdx_def
        DBL_MAX_def)

text \<open>
  Claim C3. A track without an admissible waypoint is claimed to contribute nothing,
  and the selector to answer "infeasible" when no track has one. On the track whose
  only waypoint lies behind the vehicle, \<open>waypoint_idx\<close> is still \<open>-1\<close> after the inner
  loop and \<open>findWaypoints\<close> reads \<open>global_path_[i][waypoint_idx]\<close> all the same, outside
  the vector; the selection ends in that error. \<open>checkFeasibility\<close> itself, even on an
  empty list of options, ends without returning a value: there is no "infeasible".
\<close>

theorem findWaypoints_no_candidate_out_of_bounds:
  "snd (findWaypoints ex_cfg ex_getMapIdx ex_track_behind ex_state (Some (tf_at 0 0)))
     = Inl OutOfBounds \<and>
   select_waypoint ex_cfg ex_getMapIdx ex_track_behind ex_state (Some (tf_at 0 0)) (Some (tf_at 0 0))
     = Inl OutOfBounds \<and>
   snd (checkFeasibility ex_state (Some (tf_at 0 0)) []) = Inl MissingReturn"
proof -
  have p: "0 < path_num ex_cfg" by (simp add: ex_cfg_def)
  from findWaypoints_out_of_bounds [OF p, of ex_getMapIdx ex_track_behind ex_state "Some (tf_at 0 0)"]
  show ?thesis
    by (auto simp: select_waypoint_def checkFeasibility_def Let_def split: prod.splits)
qed

text \<open>
  Claim C4. Among the waypoints ahead of the vehicle the selector is claimed to return
  the free one whose distance is closest to the lookahead distance. For the track with
  waypoints at 0.5, 1 and 1.5 ahead, all free, and lookahead 1, that is the waypoint at
  distance 1. The inner loop of the source tests and steps \<open>i\<close> instead of \<open>j\<close>: it
  looks at the first waypoint only, leaves with \<open>i\<close> past the last track, and the
  \<open>push_back\<close> then reads \<open>global_path_[i]\<close> outside the vector. The position handed to
  the transform also takes \<open>y\<close> from \<open>.x\<close>: the waypoint \<open>(0, 1)\<close>, at distance 1 from
  the vehicle, is given the distance 0 and the difference 1.
\<close>

theorem findWaypoints_first_waypoint_only:
  "snd (findWaypoints ex_cfg ex_getMapIdx ex_track_ahead ex_state (Some (tf_at 0 0)))
     = Inl OutOfBounds \<and>
   waypoint_body 1 (tf_at 0 0) ex_getMapIdx [0] [[waypoint_at 0 1]] 0 0 DBL_MAX (- 1) = Inr (1, 0)"
proof -
  have p: "0 < path_num ex_cfg" by (simp add: ex_cfg_def)
  from findWaypoints_out_of_bounds [OF p, of ex_getMapIdx ex_track_ahead ex_state "Some (tf_at 0 0)"]
    waypoint_body_takes_x_twice
  show ?thesis by simp
qed


subsection \<open>Trajectory Tracker\<close>

text \<open>
  Claim C6. For every operating point \<open>(x_op, u_op)\<close> and timestep \<open>dt\<close>, the matrices
  \<open>Ad\<close>, \<open>Bd\<close> and the vector \<open>hd\<close> of the linearization satisfy
  \<open>Ad x_op + Bd u_op + hd = propagate(x_op, u_op, dt)\<close>, over the reals.
\<close>

theorem affine_reconstruction_identity:
  "(case get_linear_dynamics h h_steer h_vel dt x_op u_op of
      (Ad, Bd, hd_vec) \<Rightarrow> vec3_add (vec3_add (mat33_vec Ad x_op) (mat32_vec Bd u_op)) hd_vec)
   = propagate_Dynamics h x_op u_op dt"
proof -
  obtain x y theta where x_op: "x_op = (x, y, theta)" by (cases x_op)
  obtain steer v where u_op: "u_op = (steer, v)" by (cases u_op)
  show ?thesis
    unfolding x_op u_op by (simp add: Let_def)
qed


end
